theory Spec2Isabelle
  imports Complex_Main "HOL-Library.Word" "HOL-Library.Multiset"
begin

unbundle bit_operations_syntax

section \<open>KaroSpace externalizer: data model\<close>

text \<open>
  A shallow embedding of \<^verbatim>\<open>scripts/externalize_karospace_html.py\<close>.

  Text. A Python \<^verbatim>\<open>str\<close> is modelled by the bytes of its UTF-8 encoding, a
  \<^typ>\<open>string\<close> (a list of 8-bit characters), so every offset into the document is a
  byte offset. A \<^verbatim>\<open>str\<close> may hold a lone surrogate (\<^verbatim>\<open>json.loads\<close> builds one from
  \<^verbatim>\<open>"\ud800"\<close>), which has no UTF-8 encoding; it is carried as the three bytes
  \<^verbatim>\<open>ED A0..BF 80..BF\<close> that the same bit layout gives, so a \<^verbatim>\<open>str\<close> can be encoded
  exactly when its bytes are well-formed UTF-8 (\<open>encode_utf8\<close> below). Character
  classes of the regular expressions (\<^verbatim>\<open>\s\<close>, \<^verbatim>\<open>\w\<close>, \<^verbatim>\<open>str.isspace\<close>, case folding)
  are the ASCII ones.

  Errors. Every \<^verbatim>\<open>raise\<close> of the source is a value of \<open>error\<close>; a function that
  can raise returns \<open>error + 'a\<close>.
\<close>

datatype error =
    ValueError string
  | RuntimeError string
  | FileNotFoundError string
  | UnicodeDecodeError
  | UnicodeEncodeError
  | IndexError

text \<open>
  Decoded JSON values, as \<^verbatim>\<open>json.loads\<close> builds them: \<^verbatim>\<open>None\<close>, \<^verbatim>\<open>bool\<close>,
  \<^verbatim>\<open>int\<close> (unbounded), \<^verbatim>\<open>float\<close>, \<^verbatim>\<open>str\<close>, \<^verbatim>\<open>list\<close> and \<^verbatim>\<open>dict\<close> (insertion
  ordered, string keys). A float is carried as the text \<^verbatim>\<open>json.dumps\<close> writes for it,
  which is all the program uses of a float: \<^verbatim>\<open>float.__repr__\<close> of a finite float, and
  \<^verbatim>\<open>NaN\<close>, \<^verbatim>\<open>Infinity\<close> or \<^verbatim>\<open>-Infinity\<close> otherwise (\<^verbatim>\<open>json.loads\<close> decodes \<^verbatim>\<open>1e999\<close> to
  infinity).
\<close>

datatype json =
    JNull
  | JBool bool
  | JInt int
  | JFloat string
  | JStr string
  | JArr "json list"
  | JObj "(string \<times> json) list"

subsection \<open>\<^verbatim>\<open>json.dumps(v, ensure_ascii=False, separators=(",", ":"))\<close>\<close>

definition digit_char :: "nat \<Rightarrow> char" where
  "digit_char d = ''0123456789abcdef'' ! d"

function str_nat :: "nat \<Rightarrow> string" where
  "str_nat n = (if n < 10 then [digit_char n] else str_nat (n div 10) @ [digit_char (n mod 10)])"
  by pat_completeness auto
termination
  by (relation "measure id") auto

declare str_nat.simps [simp del]

definition str_int :: "int \<Rightarrow> string" where
  "str_int i = (if i < 0 then CHR ''-'' # str_nat (nat (- i)) else str_nat (nat i))"

text \<open>
  \<^verbatim>\<open>encode_basestring\<close>: the quote, the backslash and the control characters below
  \<^verbatim>\<open>0x20\<close> are escaped, everything else (non-ASCII included) is copied.
\<close>

definition escape_char :: "char \<Rightarrow> string" where
  "escape_char c =
     (if c = CHR 0x5C then [CHR 0x5C, CHR 0x5C]
      else if c = CHR 0x22 then [CHR 0x5C, CHR 0x22]
      else if c = CHR 0x08 then [CHR 0x5C, CHR ''b'']
      else if c = CHR 0x0C then [CHR 0x5C, CHR ''f'']
      else if c = CHR 0x0A then [CHR 0x5C, CHR ''n'']
      else if c = CHR 0x0D then [CHR 0x5C, CHR ''r'']
      else if c = CHR 0x09 then [CHR 0x5C, CHR ''t'']
      else if (of_char c :: nat) < 0x20
        then [CHR 0x5C, CHR ''u'', CHR ''0'', CHR ''0'',
              digit_char ((of_char c :: nat) div 16), digit_char ((of_char c :: nat) mod 16)]
      else [c])"

definition encode_basestring :: "string \<Rightarrow> string" where
  "encode_basestring s = [CHR 0x22] @ concat (map escape_char s) @ [CHR 0x22]"

fun join :: "string \<Rightarrow> string list \<Rightarrow> string" where
  "join sep [] = []"
| "join sep [p] = p"
| "join sep (p # q # ps) = p @ sep @ join sep (q # ps)"

fun dumps :: "json \<Rightarrow> string" where
  "dumps JNull = ''null''"
| "dumps (JBool b) = (if b then ''true'' else ''false'')"
| "dumps (JInt i) = str_int i"
| "dumps (JFloat r) = r"
| "dumps (JStr s) = encode_basestring s"
| "dumps (JArr xs) = ''['' @ join '','' (map dumps xs) @ '']''"
| "dumps (JObj kvs) =
     ''{'' @ join '','' (map (\<lambda>kv. encode_basestring (fst kv) @ '':'' @ dumps (snd kv)) kvs) @ ''}''"

subsection \<open>\<^verbatim>\<open>str.encode("utf-8")\<close> and \<^verbatim>\<open>bytes.decode("utf-8")\<close>\<close>

text \<open>
  \<^verbatim>\<open>bytes.decode("utf-8")\<close> accepts exactly the well-formed byte sequences of the
  Unicode standard (no overlong forms, no surrogates, nothing above U+10FFFF) and
  raises \<^verbatim>\<open>UnicodeDecodeError\<close> on anything else.
\<close>

definition is_continuation :: "nat \<Rightarrow> bool" where
  "is_continuation b = (b AND 0xC0 = 0x80)"

fun utf8_valid :: "nat list \<Rightarrow> bool" where
  "utf8_valid [] = True"
| "utf8_valid (b0 # bs) =
     (if b0 < 0x80 then utf8_valid bs
      else if 0xC2 \<le> b0 \<and> b0 \<le> 0xDF then
        (case bs of b1 # r \<Rightarrow> is_continuation b1 \<and> utf8_valid r | _ \<Rightarrow> False)
      else if 0xE0 \<le> b0 \<and> b0 \<le> 0xEF then
        (case bs of b1 # b2 # r \<Rightarrow>
           is_continuation b1 \<and> is_continuation b2
           \<and> (b0 = 0xE0 \<longrightarrow> 0xA0 \<le> b1) \<and> (b0 = 0xED \<longrightarrow> b1 \<le> 0x9F)
           \<and> utf8_valid r
         | _ \<Rightarrow> False)
      else if 0xF0 \<le> b0 \<and> b0 \<le> 0xF4 then
        (case bs of b1 # b2 # b3 # r \<Rightarrow>
           is_continuation b1 \<and> is_continuation b2 \<and> is_continuation b3
           \<and> (b0 = 0xF0 \<longrightarrow> 0x90 \<le> b1) \<and> (b0 = 0xF4 \<longrightarrow> b1 \<le> 0x8F)
           \<and> utf8_valid r
         | _ \<Rightarrow> False)
      else False)"

definition decode_utf8 :: "string \<Rightarrow> error + string" where
  "decode_utf8 payload =
     (if utf8_valid (map of_char payload) then Inr payload else Inl UnicodeDecodeError)"

text \<open>
  \<^verbatim>\<open>str.encode("utf-8")\<close> gives the bytes of the string and raises
  \<^verbatim>\<open>UnicodeEncodeError\<close> when the string holds a surrogate, that is when its bytes
  are not well-formed.
\<close>

definition encode_utf8 :: "string \<Rightarrow> error + string" where
  "encode_utf8 s =
     (if utf8_valid (map of_char s) then Inr s else Inl UnicodeEncodeError)"

section \<open>Chunk planner\<close>

subsection \<open>\<^verbatim>\<open>split_array_for_target_bytes\<close>\<close>

text \<open>
  The \<^verbatim>\<open>for item in items\<close> loop, with its three mutable locals \<^verbatim>\<open>chunks\<close>,
  \<^verbatim>\<open>current\<close> and \<^verbatim>\<open>current_bytes\<close> as arguments; the base case is the code after
  the loop. Each round serializes the item and encodes the text to count its bytes,
  which raises for an item that holds a lone surrogate.
\<close>

fun split_array_loop ::
  "int \<Rightarrow> json list \<Rightarrow> json list list \<Rightarrow> json list \<Rightarrow> int \<Rightarrow> error + json list list" where
  "split_array_loop target_bytes [] chunks current current_bytes =
     Inr (if current \<noteq> [] then chunks @ [current] else chunks)"
| "split_array_loop target_bytes (item # items) chunks current current_bytes =
     (let item_json = dumps item
      in case encode_utf8 item_json of
           Inl err \<Rightarrow> Inl err
         | Inr encoded \<Rightarrow>
             (let item_bytes = int (length encoded);
                  extra_comma = (if current \<noteq> [] then 1 else 0);
                  projected = current_bytes + extra_comma + item_bytes
              in if current \<noteq> [] \<and> projected > target_bytes
                 then split_array_loop target_bytes items (chunks @ [current]) [item] (2 + item_bytes)
                 else split_array_loop target_bytes items chunks (current @ [item])
                        ((if current \<noteq> [] then current_bytes + 1 else current_bytes) + item_bytes)))"

definition split_array_for_target_bytes :: "json list \<Rightarrow> int \<Rightarrow> error + json list list" where
  "split_array_for_target_bytes items target_bytes =
     (if target_bytes \<le> 0 then Inl (ValueError ''target_bytes must be > 0'')
      else if items = [] then Inr [[]]
      else split_array_loop target_bytes items [] [] 2)"

subsection \<open>\<^verbatim>\<open>split_utf8_text_by_bytes\<close>\<close>

text \<open>
  \<^verbatim>\<open>payload[end]\<close> with a Python index: a negative index counts from the end, an index
  out of range raises \<^verbatim>\<open>IndexError\<close>.
\<close>

definition py_getitem :: "'a list \<Rightarrow> int \<Rightarrow> error + 'a" where
  "py_getitem xs i =
     (if 0 \<le> i \<and> i < int (length xs) then Inr (xs ! nat i)
      else if i < 0 \<and> - int (length xs) \<le> i then Inr (xs ! nat (int (length xs) + i))
      else Inl IndexError)"

text \<open>\<^verbatim>\<open>xs[i:j]\<close> for \<open>0 \<le> i\<close> and \<open>0 \<le> j\<close>.\<close>

definition py_slice :: "'a list \<Rightarrow> nat \<Rightarrow> nat \<Rightarrow> 'a list" where
  "py_slice xs i j = take (j - i) (drop i xs)"

text \<open>
  The inner loop
  \<^verbatim>\<open>while end < total and (payload[end] & 0b1100_0000) == 0b1000_0000: end -= 1\<close>.
\<close>

function back_off :: "string \<Rightarrow> int \<Rightarrow> error + int" where
  "back_off payload e =
     (if e < int (length payload) then
        (case py_getitem payload e of
           Inl err \<Rightarrow> Inl err
         | Inr c \<Rightarrow> if is_continuation (of_char c) then back_off payload (e - 1) else Inr e)
      else Inr e)"
  by pat_completeness auto
termination
  by (relation "measure (\<lambda>(payload, e). nat (e + int (length payload) + 1))")
     (auto simp: py_getitem_def split: if_splits)

declare back_off.simps [simp del]

text \<open>
  The outer loop \<^verbatim>\<open>while idx < total\<close>, with \<^verbatim>\<open>idx\<close> and \<^verbatim>\<open>chunks\<close> as arguments.
  The function raises at entry unless \<^verbatim>\<open>max_bytes > 0\<close>; the loop repeats that
  condition so that the recursion is well-founded for every argument (with
  \<^verbatim>\<open>max_bytes = 0\<close> the Python loop would never advance).
\<close>

function split_utf8_loop :: "string \<Rightarrow> nat \<Rightarrow> nat \<Rightarrow> string list \<Rightarrow> error + string list" where
  "split_utf8_loop payload max_bytes idx chunks =
     (if idx < length payload \<and> 0 < max_bytes then
        (case back_off payload (int (min (idx + max_bytes) (length payload))) of
           Inl err \<Rightarrow> Inl err
         | Inr e \<Rightarrow>
             (let end = (if e \<le> int idx then min (idx + max_bytes) (length payload) else nat e)
              in case decode_utf8 (py_slice payload idx end) of
                   Inl err \<Rightarrow> Inl err
                 | Inr piece \<Rightarrow> split_utf8_loop payload max_bytes end (chunks @ [piece])))
      else Inr chunks)"
  by pat_completeness auto

lemma back_off_le: "back_off payload e = Inr e' \<Longrightarrow> e' \<le> e"
  by (induction payload e rule: back_off.induct)
     (subst (asm) back_off.simps, auto split: if_splits sum.splits)

termination split_utf8_loop
  by (relation "measure (\<lambda>(payload, max_bytes, idx, chunks). length payload - idx)")
     (auto dest!: back_off_le split: if_splits)

declare split_utf8_loop.simps [simp del]

definition split_utf8_text_by_bytes :: "string \<Rightarrow> int \<Rightarrow> error + string list" where
  "split_utf8_text_by_bytes text max_bytes =
     (if max_bytes \<le> 0 then Inl (ValueError ''max_bytes must be > 0'')
      else case encode_utf8 text of
             Inl err \<Rightarrow> Inl err
           | Inr payload \<Rightarrow>
               (let total = length payload
                in if total = 0 then Inr [[]] else split_utf8_loop payload (nat max_bytes) 0 []))"

subsection \<open>Writing chunk files\<close>

text \<open>
  A path is the list of its components; the file system is the part of the world the
  program writes: the files with their contents, the directories, and the effects in
  the order they happen. Operations of the file system are taken to
  succeed. \<^verbatim>\<open>write_text(..., encoding="utf-8")\<close> encodes its text, and every text the
  program writes can be encoded: a chunk has gone through \<open>encode_utf8\<close> in its
  splitter, item by item or as a whole, and the manifest and the rewritten document
  are made of the decoded input and of ASCII text.
\<close>

type_synonym path = "string list"

datatype effect =
    Mkdir path
  | ReadText path
  | Copy2 path path
  | WriteText path string

record world =
  files :: "path \<rightharpoonup> string"
  dirs :: "path set"
  effects :: "effect list"

definition write_text :: "path \<Rightarrow> string \<Rightarrow> world \<Rightarrow> world" where
  "write_text p text w = w\<lparr>files := (files w)(p \<mapsto> text), effects := effects w @ [WriteText p text]\<rparr>"

definition mkdir :: "path \<Rightarrow> world \<Rightarrow> world" where
  "mkdir p w = w\<lparr>dirs := insert p (dirs w), effects := effects w @ [Mkdir p]\<rparr>"

definition copy2 :: "path \<Rightarrow> path \<Rightarrow> world \<Rightarrow> world" where
  "copy2 src dst w = w\<lparr>files := (files w)(dst := files w src), effects := effects w @ [Copy2 src dst]\<rparr>"

text \<open>\<^verbatim>\<open>f"{n:03d}"\<close>: decimal, padded with zeros to three digits.\<close>

definition pad3 :: "nat \<Rightarrow> string" where
  "pad3 n = replicate (3 - length (str_nat n)) CHR ''0'' @ str_nat n"

record chunk_entry =
  ce_path :: string
  ce_bytes :: nat
  ce_items :: "nat option"
  ce_format :: string

text \<open>The \<^verbatim>\<open>for arr in array_slices\<close> loop of \<^verbatim>\<open>write_array_chunks\<close>.\<close>

fun write_array_loop ::
  "path \<Rightarrow> json list list \<Rightarrow> chunk_entry list \<Rightarrow> nat \<Rightarrow> world \<Rightarrow> chunk_entry list \<times> nat \<times> world" where
  "write_array_loop data_dir [] entries chunk_counter w = (entries, chunk_counter, w)"
| "write_array_loop data_dir (arr # array_slices) entries chunk_counter w =
     (let filename = ''chunk_'' @ pad3 chunk_counter @ ''.json'';
          chunk_path = data_dir @ [filename];
          json_text = dumps (JArr arr);
          w' = write_text chunk_path json_text w;
          entry = \<lparr>ce_path = ''data/'' @ filename, ce_bytes = length json_text,
                   ce_items = Some (length arr), ce_format = ''json_array''\<rparr>
      in write_array_loop data_dir array_slices (entries @ [entry]) (chunk_counter + 1) w')"

definition write_array_chunks ::
  "json list \<Rightarrow> path \<Rightarrow> int \<Rightarrow> nat \<Rightarrow> world \<Rightarrow> error + ((chunk_entry list \<times> nat \<times> string) \<times> world)" where
  "write_array_chunks val data_dir chunk_target_bytes chunk_counter w =
     (case split_array_for_target_bytes val chunk_target_bytes of
        Inl err \<Rightarrow> Inl err
      | Inr array_slices \<Rightarrow>
          (case write_array_loop data_dir array_slices [] chunk_counter w of
             (entries, chunk_counter', w') \<Rightarrow> Inr ((entries, chunk_counter', ''array_slices''), w')))"

text \<open>The \<^verbatim>\<open>for part in parts\<close> loop of \<^verbatim>\<open>write_text_chunks\<close>.\<close>

fun write_text_loop ::
  "path \<Rightarrow> string list \<Rightarrow> chunk_entry list \<Rightarrow> nat \<Rightarrow> world \<Rightarrow> chunk_entry list \<times> nat \<times> world" where
  "write_text_loop data_dir [] entries chunk_counter w = (entries, chunk_counter, w)"
| "write_text_loop data_dir (part # parts) entries chunk_counter w =
     (let filename = ''chunk_'' @ pad3 chunk_counter @ ''.txt'';
          chunk_path = data_dir @ [filename];
          w' = write_text chunk_path part w;
          entry = \<lparr>ce_path = ''data/'' @ filename, ce_bytes = length part,
                   ce_items = None, ce_format = ''json_text_piece''\<rparr>
      in write_text_loop data_dir parts (entries @ [entry]) (chunk_counter + 1) w')"

definition write_text_chunks ::
  "json \<Rightarrow> path \<Rightarrow> int \<Rightarrow> nat \<Rightarrow> world \<Rightarrow> error + ((chunk_entry list \<times> nat \<times> string) \<times> world)" where
  "write_text_chunks val data_dir chunk_target_bytes chunk_counter w =
     (let json_text = dumps val
      in case split_utf8_text_by_bytes json_text chunk_target_bytes of
           Inl err \<Rightarrow> Inl err
         | Inr parts \<Rightarrow>
             (case write_text_loop data_dir parts [] chunk_counter w of
                (entries, chunk_counter', w') \<Rightarrow> Inr ((entries, chunk_counter', ''text_concat''), w')))"

section \<open>Rewriting the document\<close>

record replacement =
  r_start :: nat
  r_end :: nat
  r_text :: string

text \<open>
  \<^verbatim>\<open>sorted(replacements, key=lambda r: r.start, reverse=True)\<close>: a stable sort, highest
  start first (replacements with the same start keep their order).
\<close>

definition sorted_by_start_desc :: "replacement list \<Rightarrow> replacement list" where
  "sorted_by_start_desc rs = sort_key (\<lambda>r. - int (r_start r)) rs"

definition apply_one :: "string \<Rightarrow> replacement \<Rightarrow> string" where
  "apply_one updated repl = take (r_start repl) updated @ r_text repl @ drop (r_end repl) updated"

definition apply_replacements :: "string \<Rightarrow> replacement list \<Rightarrow> string" where
  "apply_replacements html replacements = foldl apply_one html (sorted_by_start_desc replacements)"

section \<open>Boundary scanner\<close>

subsection \<open>Character classes and string helpers\<close>

definition is_space :: "char \<Rightarrow> bool" where
  "is_space c = (let n = (of_char c :: nat) in (9 \<le> n \<and> n \<le> 13) \<or> (28 \<le> n \<and> n \<le> 32))"

definition is_digit :: "char \<Rightarrow> bool" where
  "is_digit c = (let n = (of_char c :: nat) in 48 \<le> n \<and> n \<le> 57)"

definition is_upper :: "char \<Rightarrow> bool" where
  "is_upper c = (let n = (of_char c :: nat) in 65 \<le> n \<and> n \<le> 90)"

definition is_alpha :: "char \<Rightarrow> bool" where
  "is_alpha c = (let n = (of_char c :: nat) in (65 \<le> n \<and> n \<le> 90) \<or> (97 \<le> n \<and> n \<le> 122))"

text \<open>\<^verbatim>\<open>\w\<close>, \<^verbatim>\<open>[A-Za-z_$]\<close> and \<^verbatim>\<open>[\w$]\<close>.\<close>

definition is_word :: "char \<Rightarrow> bool" where
  "is_word c = (is_alpha c \<or> is_digit c \<or> c = CHR ''_'')"

definition is_name_start :: "char \<Rightarrow> bool" where
  "is_name_start c = (is_alpha c \<or> c = CHR ''_'' \<or> c = CHR ''$'')"

definition is_name_char :: "char \<Rightarrow> bool" where
  "is_name_char c = (is_word c \<or> c = CHR ''$'')"

definition lower_char :: "char \<Rightarrow> char" where
  "lower_char c = (if is_upper c then char_of ((of_char c :: nat) + 32) else c)"

definition lower :: "string \<Rightarrow> string" where
  "lower s = map lower_char s"

definition strip :: "string \<Rightarrow> string" where
  "strip s = rev (dropWhile is_space (rev (dropWhile is_space s)))"

text \<open>The literal \<open>lit\<close> stands at offset \<open>i\<close>; with \<^verbatim>\<open>(?i)\<close>, up to case.\<close>

definition literal_at :: "string \<Rightarrow> nat \<Rightarrow> string \<Rightarrow> bool" where
  "literal_at text i lit = (py_slice text i (i + length lit) = lit)"

definition literal_at_nocase :: "string \<Rightarrow> nat \<Rightarrow> string \<Rightarrow> bool" where
  "literal_at_nocase text i lit = (lower (py_slice text i (i + length lit)) = lower lit)"

text \<open>A greedy \<^verbatim>\<open>[class]*\<close> from offset \<open>pos\<close>: the offset after the longest run.\<close>

function span_while :: "(char \<Rightarrow> bool) \<Rightarrow> string \<Rightarrow> nat \<Rightarrow> nat" where
  "span_while cls text pos =
     (if pos < length text \<and> cls (text ! pos) then span_while cls text (pos + 1) else pos)"
  by pat_completeness auto
termination
  by (relation "measure (\<lambda>(cls, text, pos). length text - pos)") auto

declare span_while.simps [simp del]

function skip_whitespace :: "string \<Rightarrow> nat \<Rightarrow> nat" where
  "skip_whitespace text pos =
     (if pos < length text \<and> is_space (text ! pos) then skip_whitespace text (pos + 1) else pos)"
  by pat_completeness auto
termination
  by (relation "measure (\<lambda>(text, pos). length text - pos)") auto

declare skip_whitespace.simps [simp del]

subsection \<open>\<^verbatim>\<open>ASSIGNMENT_START_RE\<close>\<close>

text \<open>
  The groups of a match of
  \<^verbatim>\<open>(const|let|var)\s+NAME\s*=\s*  |  window\.NAME\s*=\s*\<close>, \<^verbatim>\<open>NAME = [A-Za-z_$][\w$]*\<close>.
  Every repetition of the pattern is followed by a character outside its class, so the
  greedy match is the only one and no backtracking changes it.
\<close>

record re_match =
  m_start :: nat
  m_end :: nat
  m_decl_kind :: "string option"
  m_decl_name :: "string option"
  m_window_name :: "string option"

text \<open>\<^verbatim>\<open>NAME\s*=\s*\<close> from offset \<open>j\<close>: the end of the name and the end of the match.\<close>

definition match_name_eq :: "string \<Rightarrow> nat \<Rightarrow> (nat \<times> nat) option" where
  "match_name_eq text j =
     (if j < length text \<and> is_name_start (text ! j) then
        (let name_end = span_while is_name_char text (j + 1);
             k = span_while is_space text name_end
         in if k < length text \<and> text ! k = CHR ''=''
            then Some (name_end, span_while is_space text (k + 1)) else None)
      else None)"

definition match_declaration :: "string \<Rightarrow> nat \<Rightarrow> string \<Rightarrow> re_match option" where
  "match_declaration text i kw =
     (if literal_at text i kw then
        (let j0 = i + length kw; j = span_while is_space text j0
         in if j0 < j then
              (case match_name_eq text j of
                 Some (name_end, e) \<Rightarrow>
                   Some \<lparr>m_start = i, m_end = e, m_decl_kind = Some kw,
                         m_decl_name = Some (py_slice text j name_end), m_window_name = None\<rparr>
               | None \<Rightarrow> None)
            else None)
      else None)"

definition match_window :: "string \<Rightarrow> nat \<Rightarrow> re_match option" where
  "match_window text i =
     (if literal_at text i ''window.'' then
        (case match_name_eq text (i + 7) of
           Some (name_end, e) \<Rightarrow>
             Some \<lparr>m_start = i, m_end = e, m_decl_kind = None, m_decl_name = None,
                   m_window_name = Some (py_slice text (i + 7) name_end)\<rparr>
         | None \<Rightarrow> None)
      else None)"

fun first_some :: "'a option list \<Rightarrow> 'a option" where
  "first_some [] = None"
| "first_some (Some x # _) = Some x"
| "first_some (None # xs) = first_some xs"

definition assignment_start_at :: "string \<Rightarrow> nat \<Rightarrow> re_match option" where
  "assignment_start_at text i =
     first_some [match_declaration text i ''const'', match_declaration text i ''let'',
                 match_declaration text i ''var'', match_window text i]"

text \<open>\<^verbatim>\<open>ASSIGNMENT_START_RE.search(script_body, scan_pos)\<close>: the leftmost match.\<close>

function assignment_search :: "string \<Rightarrow> nat \<Rightarrow> re_match option" where
  "assignment_search text pos =
     (if pos \<le> length text then
        (case assignment_start_at text pos of
           Some m \<Rightarrow> Some m
         | None \<Rightarrow> assignment_search text (pos + 1))
      else None)"
  by pat_completeness auto
termination
  by (relation "measure (\<lambda>(text, pos). Suc (length text) - pos)") auto

declare assignment_search.simps [simp del]

subsection \<open>\<^verbatim>\<open>detect_assignment_candidates\<close>\<close>

record candidate =
  detector :: string
  c_start :: nat
  c_end :: nat
  payload_bytes :: nat
  raw_json :: string
  c_value :: json
  script_attrs :: "string option"
  script_id :: "string option"
  script_had_id :: bool
  assignment_style :: "string option"
  decl_kind :: "string option"
  variable_name :: "string option"

lemma span_while_ge: "pos \<le> span_while cls s pos"
proof (induction cls s pos rule: span_while.induct)
  case (1 cls s pos)
  show ?case
  proof (cases "pos < length s \<and> cls (s ! pos)")
    case True
    with 1 have "pos + 1 \<le> span_while cls s (pos + 1)" by simp
    then have "pos \<le> span_while cls s (pos + 1)" by arith
    with True show ?thesis by (subst span_while.simps) auto
  next
    case False
    then show ?thesis by (subst span_while.simps) auto
  qed
qed

lemma span_while_le: "pos \<le> length s \<Longrightarrow> span_while cls s pos \<le> length s"
proof (induction cls s pos rule: span_while.induct)
  case (1 cls s pos)
  show ?case
  proof (cases "pos < length s \<and> cls (s ! pos)")
    case True
    with 1 have "span_while cls s (pos + 1) \<le> length s" by simp
    with True show ?thesis by (subst span_while.simps) auto
  next
    case False
    with 1 show ?thesis by (subst span_while.simps) auto
  qed
qed

lemma skip_whitespace_ge: "pos \<le> skip_whitespace s pos"
proof (induction s pos rule: skip_whitespace.induct)
  case (1 s pos)
  show ?case
  proof (cases "pos < length s \<and> is_space (s ! pos)")
    case True
    with 1 have "pos + 1 \<le> skip_whitespace s (pos + 1)" by simp
    then have "pos \<le> skip_whitespace s (pos + 1)" by arith
    with True show ?thesis by (subst skip_whitespace.simps) auto
  next
    case False
    then show ?thesis by (subst skip_whitespace.simps) auto
  qed
qed

lemma match_name_eq_bounds:
  assumes "match_name_eq text j = Some (name_end, e)"
  shows "j < e \<and> e \<le> length text"
proof -
  let ?ne = "span_while is_name_char text (j + 1)"
  let ?k = "span_while is_space text ?ne"
  from assms have j: "j < length text" and k: "?k < length text"
    and e: "e = span_while is_space text (?k + 1)"
    by (auto simp: match_name_eq_def Let_def split: if_splits)
  have "j + 1 \<le> ?ne" "?ne \<le> ?k" "?k + 1 \<le> e"
    unfolding e by (rule span_while_ge)+
  moreover have "e \<le> length text"
    unfolding e using k by (intro span_while_le) simp
  ultimately show ?thesis by simp
qed

lemma assignment_start_at_bounds:
  assumes "assignment_start_at text i = Some m"
  shows "m_start m = i \<and> i < m_end m \<and> m_end m \<le> length text"
proof -
  have decl: "m_start m = i \<and> i < m_end m \<and> m_end m \<le> length text"
    if "match_declaration text i kw = Some m" for kw
  proof -
    from that obtain name_end e where
      ne: "match_name_eq text (span_while is_space text (i + length kw)) = Some (name_end, e)"
      and m: "m_start m = i" "m_end m = e"
      by (auto simp: match_declaration_def Let_def split: if_splits option.splits)
    from match_name_eq_bounds[OF ne] span_while_ge[of "i + length kw" is_space "text"] m
    show ?thesis by simp
  qed
  have win: "m_start m = i \<and> i < m_end m \<and> m_end m \<le> length text"
    if "match_window text i = Some m"
  proof -
    from that obtain name_end e where
      ne: "match_name_eq text (i + 7) = Some (name_end, e)"
      and m: "m_start m = i" "m_end m = e"
      by (auto simp: match_window_def split: if_splits option.splits)
    from match_name_eq_bounds[OF ne] m show ?thesis by simp
  qed
  from assms consider
      "match_declaration text i ''const'' = Some m"
    | "match_declaration text i ''let'' = Some m"
    | "match_declaration text i ''var'' = Some m"
    | "match_window text i = Some m"
    unfolding assignment_start_at_def
    by (cases "match_declaration text i ''const''"; cases "match_declaration text i ''let''";
        cases "match_declaration text i ''var''"; cases "match_window text i") auto
  then show ?thesis using decl win by cases blast+
qed

lemma assignment_search_bounds:
  "assignment_search s pos = Some m \<Longrightarrow>
     pos \<le> m_start m \<and> m_start m < m_end m \<and> m_end m \<le> length s"
proof (induction s pos rule: assignment_search.induct)
  case (1 s pos)
  show ?case
  proof (cases "assignment_start_at s pos")
    case None
    with "1.prems" have le: "pos \<le> length s" and
      "assignment_search s (pos + 1) = Some m"
      by (subst (asm) assignment_search.simps, simp split: if_splits)+
    with "1.IH"[OF le None] show ?thesis by simp
  next
    case (Some m')
    with "1.prems" have "m' = m"
      by (subst (asm) assignment_search.simps) (simp split: if_splits)
    with assignment_start_at_bounds[OF Some] show ?thesis by simp
  qed
qed

text \<open>
  The body of the \<^verbatim>\<open>while True\<close> loop once \<^verbatim>\<open>ASSIGNMENT_START_RE.search\<close> has found
  the match \<open>m\<close>: the values of \<^verbatim>\<open>scan_pos\<close>, \<^verbatim>\<open>consumed_until\<close> and \<^verbatim>\<open>candidates\<close>
  at the next iteration. \<open>raw_decode\<close> is \<^verbatim>\<open>JSON_DECODER.raw_decode\<close> of Python's
  library, taken as a parameter: \<open>None\<close> stands for \<^verbatim>\<open>json.JSONDecodeError\<close>,
  \<open>Some (value, rel_end)\<close> for the decoded value and the offset after it.
\<close>

definition assignment_candidate ::
  "string \<Rightarrow> nat \<Rightarrow> re_match \<Rightarrow> nat \<Rightarrow> json \<Rightarrow> nat \<Rightarrow> nat \<Rightarrow> candidate" where
  "assignment_candidate script_body base_offset m value_start val value_end stmt_end =
     (let raw_json = py_slice script_body value_start value_end;
          payload_bytes = length raw_json;
          assignment_style = (if m_window_name m \<noteq> None then ''window'' else ''declaration'');
          variable_name = (if m_window_name m \<noteq> None then m_window_name m else m_decl_name m)
      in \<lparr>detector = ''js_assignment'',
          c_start = base_offset + m_start m,
          c_end = base_offset + stmt_end,
          payload_bytes = payload_bytes,
          raw_json = raw_json,
          c_value = val,
          script_attrs = None,
          script_id = None,
          script_had_id = False,
          assignment_style = Some assignment_style,
          decl_kind = m_decl_kind m,
          variable_name = variable_name\<rparr>)"

definition scan_match ::
  "(string \<Rightarrow> (json \<times> nat) option) \<Rightarrow> string \<Rightarrow> nat \<Rightarrow> nat \<Rightarrow> candidate list \<Rightarrow> re_match
     \<Rightarrow> nat \<times> nat \<times> candidate list" where
  "scan_match raw_decode script_body base_offset consumed_until candidates m =
     (if m_start m < consumed_until then (consumed_until, consumed_until, candidates)
      else
        (let value_start = skip_whitespace script_body (m_end m)
         in if value_start \<ge> length script_body \<or> script_body ! value_start \<notin> set ''[{''
            then (m_end m, consumed_until, candidates)
            else
              (case raw_decode (drop value_start script_body) of
                 None \<Rightarrow> (m_end m, consumed_until, candidates)
               | Some (val, rel_end) \<Rightarrow>
                   (let value_end = value_start + rel_end;
                        stmt_end0 = skip_whitespace script_body value_end;
                        stmt_end =
                          (if stmt_end0 < length script_body \<and> script_body ! stmt_end0 = CHR '';''
                           then stmt_end0 + 1 else stmt_end0)
                    in (stmt_end, stmt_end,
                        candidates @
                        [assignment_candidate script_body base_offset m
                           value_start val value_end stmt_end])))))"

lemma scan_match_advances:
  assumes "scan_match raw_decode script_body base_offset consumed_until candidates m
             = (scan_pos', consumed_until', candidates')"
    and "m_start m < m_end m"
  shows "m_start m < scan_pos'"
proof (cases "m_start m < consumed_until")
  case True
  with assms show ?thesis by (simp add: scan_match_def)
next
  case False
  let ?vs = "skip_whitespace script_body (m_end m)"
  have vs: "m_end m \<le> ?vs" by (rule skip_whitespace_ge)
  show ?thesis
  proof (cases "?vs \<ge> length script_body \<or> script_body ! ?vs \<notin> set ''[{''")
    case True
    with False assms show ?thesis
      by (auto simp: scan_match_def Let_def split: if_splits)
  next
    case inner: False
    show ?thesis
    proof (cases "raw_decode (drop ?vs script_body)")
      case None
      with False inner assms show ?thesis
        by (auto simp: scan_match_def Let_def split: if_splits)
    next
      case (Some res)
      obtain val rel_end where res: "res = (val, rel_end)" by (cases res)
      let ?se0 = "skip_whitespace script_body (?vs + rel_end)"
      have "?vs + rel_end \<le> ?se0" by (rule skip_whitespace_ge)
      with vs assms(2) have "m_start m < ?se0" by simp
      moreover have "scan_pos' = (if ?se0 < length script_body \<and> script_body ! ?se0 = CHR '';''
                                    then ?se0 + 1 else ?se0)"
        using False inner Some res assms(1)
        by (auto simp: scan_match_def Let_def split: if_splits)
      ultimately show ?thesis by simp
    qed
  qed
qed

lemma scan_measure:
  assumes "assignment_search script_body scan_pos = Some m"
  shows "(case scan_match raw_decode script_body base_offset consumed_until candidates m of
            (scan_pos', consumed_until', candidates') \<Rightarrow> Suc (length script_body) - scan_pos')
         < Suc (length script_body) - scan_pos"
proof -
  obtain scan_pos' consumed_until' candidates' where
    sm: "scan_match raw_decode script_body base_offset consumed_until candidates m
           = (scan_pos', consumed_until', candidates')"
    by (cases "scan_match raw_decode script_body base_offset consumed_until candidates m")
  from assignment_search_bounds[OF assms(1)]
  have b: "scan_pos \<le> m_start m" "m_start m < m_end m" "m_end m \<le> length script_body"
    by simp_all
  from scan_match_advances[OF sm b(2)] b
  have "Suc (length script_body) - scan_pos' < Suc (length script_body) - scan_pos" by arith
  then show ?thesis by (simp add: sm)
qed

text \<open>The \<^verbatim>\<open>while True\<close> loop, which ends when the search finds no match.\<close>

function detect_assignment_loop ::
  "(string \<Rightarrow> (json \<times> nat) option) \<Rightarrow> string \<Rightarrow> nat \<Rightarrow> nat \<Rightarrow> nat \<Rightarrow> candidate list
     \<Rightarrow> candidate list" where
  "detect_assignment_loop raw_decode script_body base_offset scan_pos consumed_until candidates =
     (case assignment_search script_body scan_pos of
        None \<Rightarrow> candidates
      | Some m \<Rightarrow>
          (case scan_match raw_decode script_body base_offset consumed_until candidates m of
             (scan_pos', consumed_until', candidates') \<Rightarrow>
               detect_assignment_loop raw_decode script_body base_offset
                 scan_pos' consumed_until' candidates'))"
  by pat_completeness auto
termination
  by (relation "measure (\<lambda>(raw_decode, script_body, base_offset, scan_pos, consumed_until, candidates).
                   Suc (length script_body) - scan_pos)")
     (auto intro: scan_measure)

declare detect_assignment_loop.simps [simp del]

definition detect_assignment_candidates ::
  "(string \<Rightarrow> (json \<times> nat) option) \<Rightarrow> string \<Rightarrow> nat \<Rightarrow> candidate list" where
  "detect_assignment_candidates raw_decode script_body base_offset =
     detect_assignment_loop raw_decode script_body base_offset 0 0 []"

subsection \<open>\<^verbatim>\<open>SCRIPT_TAG_RE\<close> and \<^verbatim>\<open>extract_attr\<close>\<close>

text \<open>
  A match of \<^verbatim>\<open>(?is)<script\b(?P<attrs>[^>]*)>(?P<body>.*?)</script>\<close>: the attributes
  run to the first \<^verbatim>\<open>>\<close>, the body to the first \<^verbatim>\<open></script>\<close> after it.
\<close>

record script_match =
  sm_start :: nat
  sm_end :: nat
  sm_attrs :: string
  sm_body :: string
  sm_body_start :: nat

text \<open>The lazy \<^verbatim>\<open>.*?</script>\<close>: the first offset from \<open>pos\<close> on where \<^verbatim>\<open></script>\<close> stands.\<close>

function find_close :: "string \<Rightarrow> nat \<Rightarrow> nat option" where
  "find_close html pos =
     (if pos < length html then
        (if literal_at_nocase html pos ''</script>'' then Some pos else find_close html (pos + 1))
      else None)"
  by pat_completeness auto
termination
  by (relation "measure (\<lambda>(html, pos). length html - pos)") auto

declare find_close.simps [simp del]

definition script_tag_at :: "string \<Rightarrow> nat \<Rightarrow> script_match option" where
  "script_tag_at html i =
     (if literal_at_nocase html i ''<script''
         \<and> (i + 7 \<ge> length html \<or> \<not> is_word (html ! (i + 7))) then
        (let attrs_start = i + 7;
             attrs_end = span_while (\<lambda>c. c \<noteq> CHR ''>'') html attrs_start
         in if attrs_end < length html then
              (let body_start = attrs_end + 1
               in case find_close html body_start of
                    Some body_end \<Rightarrow>
                      Some \<lparr>sm_start = i, sm_end = body_end + 9,
                            sm_attrs = py_slice html attrs_start attrs_end,
                            sm_body = py_slice html body_start body_end,
                            sm_body_start = body_start\<rparr>
                  | None \<Rightarrow> None)
            else None)
      else None)"

function script_search :: "string \<Rightarrow> nat \<Rightarrow> script_match option" where
  "script_search html pos =
     (if pos \<le> length html then
        (case script_tag_at html pos of
           Some m \<Rightarrow> Some m
         | None \<Rightarrow> script_search html (pos + 1))
      else None)"
  by pat_completeness auto
termination
  by (relation "measure (\<lambda>(html, pos). Suc (length html) - pos)") auto

declare script_search.simps [simp del]

lemma find_close_ge: "find_close html pos = Some k \<Longrightarrow> pos \<le> k \<and> k < length html"
proof (induction html pos rule: find_close.induct)
  case (1 html pos)
  from "1.prems" have lt: "pos < length html"
    by (subst (asm) find_close.simps) (simp split: if_splits)
  show ?case
  proof (cases "literal_at_nocase html pos ''</script>''")
    case True
    with "1.prems" lt show ?thesis by (subst (asm) find_close.simps) simp
  next
    case False
    with "1.prems" lt have "find_close html (pos + 1) = Some k"
      by (subst (asm) find_close.simps) simp
    with "1.IH"[OF lt False] show ?thesis by simp
  qed
qed

lemma script_tag_at_bounds:
  assumes "script_tag_at html i = Some m"
  shows "sm_start m = i \<and> i < sm_end m"
proof -
  let ?ae = "span_while (\<lambda>c. c \<noteq> CHR ''>'') html (i + 7)"
  from assms obtain body_end where
    fc: "find_close html (?ae + 1) = Some body_end" and
    m: "sm_start m = i" "sm_end m = body_end + 9"
    by (auto simp: script_tag_at_def Let_def split: if_splits option.splits)
  have "i + 7 \<le> ?ae" by (rule span_while_ge)
  with find_close_ge[OF fc] m show ?thesis by simp
qed

lemma script_search_bounds:
  "script_search html pos = Some m \<Longrightarrow> pos \<le> sm_start m \<and> sm_start m < sm_end m"
proof (induction html pos rule: script_search.induct)
  case (1 html pos)
  from "1.prems" have le: "pos \<le> length html"
    by (subst (asm) script_search.simps) (simp split: if_splits)
  show ?case
  proof (cases "script_tag_at html pos")
    case None
    with "1.prems" le have "script_search html (pos + 1) = Some m"
      by (subst (asm) script_search.simps) simp
    with "1.IH"[OF le None] show ?thesis by simp
  next
    case (Some m')
    with "1.prems" le have "m' = m"
      by (subst (asm) script_search.simps) simp
    with script_tag_at_bounds[OF Some] show ?thesis by simp
  qed
qed

lemma script_search_None_beyond: "length html < pos \<Longrightarrow> script_search html pos = None"
  by (subst script_search.simps) simp

text \<open>\<^verbatim>\<open>SCRIPT_TAG_RE.finditer(html)\<close>: the matches from left to right, each search
  starting where the match before ended.\<close>

function script_finditer :: "string \<Rightarrow> nat \<Rightarrow> script_match list" where
  "script_finditer html pos =
     (case script_search html pos of
        None \<Rightarrow> []
      | Some m \<Rightarrow> m # script_finditer html (sm_end m))"
  by pat_completeness auto
termination
proof (relation "measure (\<lambda>(html, pos). Suc (length html) - pos)", goal_cases)
  case 1
  show ?case by simp
next
  case (2 html pos m)
  from script_search_bounds[OF 2] have b: "pos < sm_end m" by simp
  have "pos \<le> length html"
  proof (rule ccontr)
    assume "\<not> pos \<le> length html"
    then have "script_search html pos = None" by (intro script_search_None_beyond) simp
    with 2 show False by simp
  qed
  with b have "Suc (length html) - sm_end m < Suc (length html) - pos" by arith
  then show ?case by (simp only: in_measure prod.case)
qed

declare script_finditer.simps [simp del]

text \<open>
  \<^verbatim>\<open>extract_attr\<close>: the leftmost match of
  \<^verbatim>\<open>\bNAME\s*=\s*(?:"([^"]*)"|'([^']*)'|([^\s"'=<>`]+))\<close>, ignoring case, and the group
  that matched.
\<close>

definition is_bare :: "char \<Rightarrow> bool" where
  "is_bare c = (\<not> is_space c \<and> c \<notin> set [CHR 0x22, CHR 0x27, CHR ''='', CHR ''<'', CHR ''>'', CHR 0x60])"

definition attr_value_at :: "string \<Rightarrow> nat \<Rightarrow> string option" where
  "attr_value_at attrs j =
     (if j < length attrs then
        (if attrs ! j = CHR 0x22 then
           (let e = span_while (\<lambda>c. c \<noteq> CHR 0x22) attrs (j + 1)
            in if e < length attrs then Some (py_slice attrs (j + 1) e) else None)
         else if attrs ! j = CHR 0x27 then
           (let e = span_while (\<lambda>c. c \<noteq> CHR 0x27) attrs (j + 1)
            in if e < length attrs then Some (py_slice attrs (j + 1) e) else None)
         else
           (let e = span_while is_bare attrs j
            in if j < e then Some (py_slice attrs j e) else None))
      else None)"

definition attr_at :: "string \<Rightarrow> string \<Rightarrow> nat \<Rightarrow> string option" where
  "attr_at attrs name i =
     (if (i = 0 \<or> \<not> is_word (attrs ! (i - 1))) \<and> literal_at_nocase attrs i name then
        (let j = span_while is_space attrs (i + length name)
         in if j < length attrs \<and> attrs ! j = CHR ''=''
            then attr_value_at attrs (span_while is_space attrs (j + 1))
            else None)
      else None)"

function attr_search :: "string \<Rightarrow> string \<Rightarrow> nat \<Rightarrow> string option" where
  "attr_search attrs name pos =
     (if pos < length attrs then
        (case attr_at attrs name pos of
           Some v \<Rightarrow> Some v
         | None \<Rightarrow> attr_search attrs name (pos + 1))
      else None)"
  by pat_completeness auto
termination
  by (relation "measure (\<lambda>(attrs, name, pos). length attrs - pos)") auto

declare attr_search.simps [simp del]

definition extract_attr :: "string \<Rightarrow> string \<Rightarrow> string option" where
  "extract_attr attrs name = attr_search attrs name 0"

subsection \<open>\<^verbatim>\<open>detect_candidates\<close>\<close>

text \<open>
  The loop over the script elements, with \<^verbatim>\<open>generated_script_counter\<close> and
  \<^verbatim>\<open>candidates\<close> as arguments. \<open>loads\<close> is \<^verbatim>\<open>json.loads\<close>, a parameter like
  \<open>raw_decode\<close>; \<open>None\<close> stands for \<^verbatim>\<open>json.JSONDecodeError\<close>.
\<close>

definition synthesized_id :: "nat \<Rightarrow> string" where
  "synthesized_id generated_script_counter = ''karospace_data_'' @ pad3 generated_script_counter"

fun detect_candidates_loop ::
  "(string \<Rightarrow> json option) \<Rightarrow> (string \<Rightarrow> (json \<times> nat) option) \<Rightarrow> script_match list \<Rightarrow> nat
     \<Rightarrow> candidate list \<Rightarrow> candidate list" where
  "detect_candidates_loop loads raw_decode [] generated_script_counter candidates = candidates"
| "detect_candidates_loop loads raw_decode (script_match # rest) generated_script_counter candidates =
     (let attrs = sm_attrs script_match;
          body = sm_body script_match;
          body_start = sm_body_start script_match;
          script_type = strip (lower (case extract_attr attrs ''type'' of None \<Rightarrow> [] | Some t \<Rightarrow> t))
      in if script_type = ''application/json'' then
           (let raw_body = strip body
            in if raw_body = [] then
                 detect_candidates_loop loads raw_decode rest generated_script_counter candidates
               else
                 (case loads raw_body of
                    None \<Rightarrow>
                      detect_candidates_loop loads raw_decode rest generated_script_counter candidates
                  | Some parsed \<Rightarrow>
                      (let existing_id = extract_attr attrs ''id'';
                           script_id =
                             (case existing_id of
                                None \<Rightarrow> synthesized_id generated_script_counter
                              | Some v \<Rightarrow>
                                  if v = [] then synthesized_id generated_script_counter else v);
                           generated_script_counter' =
                             (if existing_id = None then generated_script_counter + 1
                              else generated_script_counter)
                       in detect_candidates_loop loads raw_decode rest generated_script_counter'
                            (candidates @
                             [\<lparr>detector = ''script_json'',
                               c_start = sm_start script_match,
                               c_end = sm_end script_match,
                               payload_bytes = length raw_body,
                               raw_json = raw_body,
                               c_value = parsed,
                               script_attrs = Some attrs,
                               script_id = Some script_id,
                               script_had_id = (existing_id \<noteq> None),
                               assignment_style = None,
                               decl_kind = None,
                               variable_name = None\<rparr>]))))
         else
           detect_candidates_loop loads raw_decode rest generated_script_counter
             (candidates @ detect_assignment_candidates raw_decode body body_start))"

definition detect_candidates ::
  "(string \<Rightarrow> json option) \<Rightarrow> (string \<Rightarrow> (json \<times> nat) option) \<Rightarrow> string \<Rightarrow> candidate list" where
  "detect_candidates loads raw_decode html =
     sort_key c_start (detect_candidates_loop loads raw_decode (script_finditer html 0) 0 [])"

section \<open>Manifest and rewrite emitter\<close>

text \<open>
  What the program takes from outside its own file: Python's JSON library, the clock,
  and the literal text of the loader runtime (about 150 lines of JavaScript in the
  source, which hold the marker \<^verbatim>\<open>KAROSPACE_LOADER_RUNTIME\<close>). No property below
  depends on what they return.
\<close>

record blob_entry =
  be_key :: string
  be_detector :: string
  be_payload_bytes :: nat
  be_strategy :: string
  be_chunks :: "chunk_entry list"
  be_script_id :: "string option"
  be_assignment_style :: "string option"
  be_variable_name :: "string option"
  be_decl_kind :: "string option"

record manifest =
  mf_version :: nat
  mf_generated_at_utc :: string
  mf_slug :: string
  mf_chunk_target_mb :: real
  mf_blobs :: "blob_entry list"

record lib =
  json_loads :: "string \<Rightarrow> json option"
  json_raw_decode :: "string \<Rightarrow> (json \<times> nat) option"
  json_dumps_str :: "string \<Rightarrow> string"
  json_dumps_manifest :: "manifest \<Rightarrow> string"
  utc_now_isoformat :: string
  loader_script :: string

subsection \<open>\<^verbatim>\<open>ensure_loader_runtime\<close>\<close>

fun contains :: "string \<Rightarrow> string \<Rightarrow> bool" where
  "contains [] marker = (marker = [])"
| "contains (c # cs) marker = (take (length marker) (c # cs) = marker \<or> contains cs marker)"

text \<open>A match of \<^verbatim>\<open>(?is)<NAME\b[^>]*>\<close> at offset \<open>i\<close>: the offset after its \<^verbatim>\<open>>\<close>.\<close>

definition open_tag_at :: "string \<Rightarrow> string \<Rightarrow> nat \<Rightarrow> nat option" where
  "open_tag_at tag html i =
     (if literal_at_nocase html i tag
         \<and> (i + length tag \<ge> length html \<or> \<not> is_word (html ! (i + length tag))) then
        (let e = span_while (\<lambda>c. c \<noteq> CHR ''>'') html (i + length tag)
         in if e < length html then Some (e + 1) else None)
      else None)"

function open_tag_search :: "string \<Rightarrow> string \<Rightarrow> nat \<Rightarrow> nat option" where
  "open_tag_search tag html pos =
     (if pos < length html then
        (case open_tag_at tag html pos of
           Some e \<Rightarrow> Some e
         | None \<Rightarrow> open_tag_search tag html (pos + 1))
      else None)"
  by pat_completeness auto
termination
  by (relation "measure (\<lambda>(tag, html, pos). length html - pos)") auto

declare open_tag_search.simps [simp del]

definition ensure_loader_runtime :: "string \<Rightarrow> string \<Rightarrow> string" where
  "ensure_loader_runtime loader html =
     (if contains html ''KAROSPACE_LOADER_RUNTIME'' then html
      else
        (case open_tag_search ''<head'' html 0 of
           Some idx \<Rightarrow> take idx html @ [CHR 0x0A] @ loader @ [CHR 0x0A] @ drop idx html
         | None \<Rightarrow>
             (case open_tag_search ''<html'' html 0 of
                Some idx \<Rightarrow> take idx html @ [CHR 0x0A] @ loader @ [CHR 0x0A] @ drop idx html
              | None \<Rightarrow> loader @ [CHR 0x0A] @ html)))"

subsection \<open>\<^verbatim>\<open>replacement_for_candidate\<close>\<close>

text \<open>An optional string in an f-string or a truth test: \<^verbatim>\<open>None\<close> prints as its name,
  and \<^verbatim>\<open>None\<close> and the empty string are false.\<close>

definition fmt :: "string option \<Rightarrow> string" where
  "fmt x = (case x of None \<Rightarrow> ''None'' | Some s \<Rightarrow> s)"

definition truthy :: "string option \<Rightarrow> bool" where
  "truthy x = (case x of None \<Rightarrow> False | Some s \<Rightarrow> s \<noteq> [])"

definition get_sync :: "(string \<Rightarrow> string) \<Rightarrow> string \<Rightarrow> string" where
  "get_sync dumps_str blob_key =
     ''window.__KAROSPACE_DATA_LOADER__.getSync('' @ dumps_str blob_key @ '')''"

definition replacement_for_candidate ::
  "(string \<Rightarrow> string) \<Rightarrow> candidate \<Rightarrow> string \<Rightarrow> error + string" where
  "replacement_for_candidate dumps_str candidate blob_key =
     (if detector candidate = ''script_json'' then
        (let attrs0 = (case script_attrs candidate of None \<Rightarrow> [] | Some a \<Rightarrow> a);
             attrs = (if \<not> script_had_id candidate \<and> truthy (script_id candidate)
                      then attrs0 @ '' id='' @ [CHR 0x22] @ fmt (script_id candidate) @ [CHR 0x22]
                      else attrs0)
         in if \<not> truthy (script_id candidate)
            then Inl (ValueError ''script_json candidate missing script_id'')
            else Inr (''<script'' @ attrs @ ''></script>'' @ [CHR 0x0A]
                      @ ''<script>'' @ [CHR 0x0A]
                      @ ''(function () {'' @ [CHR 0x0A]
                      @ ''  var __kData = '' @ get_sync dumps_str blob_key @ '';'' @ [CHR 0x0A]
                      @ ''  var __kNode = document.getElementById(''
                          @ dumps_str (fmt (script_id candidate)) @ '');'' @ [CHR 0x0A]
                      @ ''  if (__kNode) {'' @ [CHR 0x0A]
                      @ ''    __kNode.textContent = JSON.stringify(__kData);'' @ [CHR 0x0A]
                      @ ''  }'' @ [CHR 0x0A]
                      @ ''})();'' @ [CHR 0x0A]
                      @ ''</script>''))
      else if detector candidate = ''js_assignment'' then
        (if assignment_style candidate = Some ''window''
         then Inr (''window.'' @ fmt (variable_name candidate) @ '' = ''
                   @ get_sync dumps_str blob_key @ '';'')
         else Inr (fmt (decl_kind candidate) @ '' '' @ fmt (variable_name candidate) @ '' = ''
                   @ get_sync dumps_str blob_key @ '';''))
      else Inl (ValueError (''Unsupported candidate detector '' @ [CHR 0x27]
                            @ detector candidate @ [CHR 0x27])))"

subsection \<open>\<^verbatim>\<open>externalize_to_directory\<close>\<close>

text \<open>\<^verbatim>\<open>int(x)\<close> of a float: truncation towards zero. The megabyte settings are floats;
  they are modelled as reals (scaling by \<open>2\<^sup>2\<^sup>0\<close> is exact on floats).\<close>

definition py_int :: "real \<Rightarrow> int" where
  "py_int x = (if 0 \<le> x then \<lfloor>x\<rfloor> else \<lceil>x\<rceil>)"

text \<open>The branch \<^verbatim>\<open>if isinstance(candidate.value, list)\<close> of the loop body.\<close>

definition write_chunks ::
  "json \<Rightarrow> path \<Rightarrow> int \<Rightarrow> nat \<Rightarrow> world \<Rightarrow> error + ((chunk_entry list \<times> nat \<times> string) \<times> world)" where
  "write_chunks val data_dir chunk_target_bytes chunk_counter w =
     (case val of
        JArr items \<Rightarrow> write_array_chunks items data_dir chunk_target_bytes chunk_counter w
      | _ \<Rightarrow> write_text_chunks val data_dir chunk_target_bytes chunk_counter w)"

text \<open>
  The loop \<^verbatim>\<open>for idx, candidate in enumerate(candidates)\<close>, with \<^verbatim>\<open>idx\<close>,
  \<^verbatim>\<open>chunk_counter\<close>, \<^verbatim>\<open>manifest["blobs"]\<close> and \<^verbatim>\<open>replacements\<close> as arguments. An
  exception leaves the world as it is at that moment.
\<close>

fun externalize_loop ::
  "(string \<Rightarrow> string) \<Rightarrow> path \<Rightarrow> int \<Rightarrow> candidate list \<Rightarrow> nat \<Rightarrow> nat \<Rightarrow> blob_entry list
     \<Rightarrow> replacement list \<Rightarrow> world
     \<Rightarrow> (error + (blob_entry list \<times> replacement list \<times> nat)) \<times> world" where
  "externalize_loop dumps_str data_dir chunk_target_bytes [] idx chunk_counter blobs replacements w =
     (Inr (blobs, replacements, chunk_counter), w)"
| "externalize_loop dumps_str data_dir chunk_target_bytes (candidate # rest) idx chunk_counter
       blobs replacements w =
     (let blob_key = ''blob_'' @ pad3 idx
      in case write_chunks (c_value candidate) data_dir chunk_target_bytes chunk_counter w of
           Inl err \<Rightarrow> (Inl err, w)
         | Inr ((chunk_entries, chunk_counter', strategy), w') \<Rightarrow>
             (case replacement_for_candidate dumps_str candidate blob_key of
                Inl err \<Rightarrow> (Inl err, w')
              | Inr text \<Rightarrow>
                  externalize_loop dumps_str data_dir chunk_target_bytes rest (idx + 1) chunk_counter'
                    (blobs @
                     [\<lparr>be_key = blob_key,
                       be_detector = detector candidate,
                       be_payload_bytes = payload_bytes candidate,
                       be_strategy = strategy,
                       be_chunks = chunk_entries,
                       be_script_id = script_id candidate,
                       be_assignment_style = assignment_style candidate,
                       be_variable_name = variable_name candidate,
                       be_decl_kind = decl_kind candidate\<rparr>])
                    (replacements @
                     [\<lparr>r_start = c_start candidate, r_end = c_end candidate, r_text = text\<rparr>])
                    w'))"

record externalize_result =
  viewer_dir :: path
  index_path :: path
  manifest_path :: path
  chunks_written :: nat

definition externalize_to_directory ::
  "lib \<Rightarrow> string \<Rightarrow> candidate list \<Rightarrow> path \<Rightarrow> string \<Rightarrow> real \<Rightarrow> world
     \<Rightarrow> (error + externalize_result) \<times> world" where
  "externalize_to_directory lib html candidates outdir slug chunk_mb w =
     (if candidates = [] then
        (Inl (RuntimeError ''No externalizable payload candidates were found.''), w)
      else
        (let chunk_target_bytes = py_int (chunk_mb * 1024 * 1024)
         in if chunk_target_bytes \<le> 0 then
              (Inl (ValueError ''--chunk-mb must be greater than zero.''), w)
            else
              (let viewer_dir = outdir @ [slug];
                   data_dir = viewer_dir @ [''data''];
                   w1 = mkdir viewer_dir w;
                   w2 = mkdir data_dir w1
               in case externalize_loop (json_dumps_str lib) data_dir chunk_target_bytes
                         candidates 0 0 [] [] w2 of
                    (Inl err, w3) \<Rightarrow> (Inl err, w3)
                  | (Inr (blobs, replacements, chunk_counter), w3) \<Rightarrow>
                      (let manifest =
                             \<lparr>mf_version = 1,
                              mf_generated_at_utc = utc_now_isoformat lib,
                              mf_slug = slug,
                              mf_chunk_target_mb = chunk_mb,
                              mf_blobs = blobs\<rparr>;
                           index_html =
                             ensure_loader_runtime (loader_script lib)
                               (apply_replacements html replacements);
                           manifest_path = viewer_dir @ [''manifest.json''];
                           index_path = viewer_dir @ [''index.html''];
                           w4 = write_text manifest_path (json_dumps_manifest lib manifest) w3;
                           w5 = write_text index_path index_html w4
                       in (Inr \<lparr>viewer_dir = viewer_dir, index_path = index_path,
                                 manifest_path = manifest_path,
                                 chunks_written = chunk_counter\<rparr>, w5)))))"

section \<open>Mode orchestrator\<close>

datatype mode = Auto | Single | Directory

record args =
  arg_input :: path
  arg_outdir :: path
  arg_slug :: string
  arg_mode :: mode
  arg_threshold_mb :: real
  arg_chunk_mb :: real

text \<open>\<^verbatim>\<open>re.fullmatch(r"[A-Za-z0-9._-]+", slug)\<close>.\<close>

definition is_slug_char :: "char \<Rightarrow> bool" where
  "is_slug_char c = (is_alpha c \<or> is_digit c \<or> c = CHR ''.'' \<or> c = CHR ''_'' \<or> c = CHR ''-'')"

definition validate_slug :: "string \<Rightarrow> error + unit" where
  "validate_slug slug =
     (if slug \<noteq> [] \<and> list_all is_slug_char slug then Inr ()
      else Inl (ValueError (''Invalid slug '' @ [CHR 0x27] @ slug @ [CHR 0x27]
                            @ ''. Use only letters, numbers, dot, underscore, hyphen.'')))"

definition path_str :: "path \<Rightarrow> string" where
  "path_str p = concat (map (\<lambda>c. ''/'' @ c) p)"

text \<open>
  Paths are absolute and resolved. A path exists when it is a file or a directory of
  the world. \<^verbatim>\<open>read_text(encoding="utf-8")\<close> raises on bytes that are not UTF-8.
\<close>

definition path_exists :: "world \<Rightarrow> path \<Rightarrow> bool" where
  "path_exists w p = (files w p \<noteq> None \<or> p \<in> dirs w)"

definition is_file :: "world \<Rightarrow> path \<Rightarrow> bool" where
  "is_file w p = (files w p \<noteq> None)"

definition read_text :: "path \<Rightarrow> world \<Rightarrow> (error + string) \<times> world" where
  "read_text p w =
     (let w' = w\<lparr>effects := effects w @ [ReadText p]\<rparr>
      in case files w p of
           None \<Rightarrow> (Inl (FileNotFoundError (path_str p)), w')
         | Some content \<Rightarrow> (decode_utf8 content, w'))"

definition make_backup_copy :: "path \<Rightarrow> path \<Rightarrow> string \<Rightarrow> world \<Rightarrow> path \<times> world" where
  "make_backup_copy input_path outdir slug w =
     (let backup_dir = outdir @ [''_backups''];
          w1 = mkdir backup_dir w;
          backup_path = backup_dir @ [slug @ ''.original.html''];
          w2 = copy2 input_path backup_path w1
      in (backup_path, w2))"

definition copy_single :: "path \<Rightarrow> path \<Rightarrow> string \<Rightarrow> world \<Rightarrow> (error + path) \<times> world" where
  "copy_single input_path outdir slug w =
     (let w1 = mkdir outdir w;
          target = outdir @ [slug @ ''.html'']
      in if input_path = target then
           (Inl (ValueError ''Input and output are the same file path.''), w1)
         else (Inr target, copy2 input_path target w1))"

datatype outcome = SingleFile path | DirectoryPackage externalize_result

text \<open>The message of the \<^verbatim>\<open>RuntimeError\<close> that \<^verbatim>\<open>run\<close> raises when nothing was detected.\<close>

definition no_payload_message :: string where
  "no_payload_message =
     ''Could not detect embedded payload patterns in the input HTML.'' @ [CHR 0x0A]
     @ ''Supported patterns: <script type='' @ [CHR 0x22] @ ''application/json'' @ [CHR 0x22]
     @ ''> blocks and JSON JS assignments.''"

text \<open>A call whose exception propagates and whose result is what \<^verbatim>\<open>run\<close> reports.\<close>

definition returning :: "('a \<Rightarrow> outcome) \<Rightarrow> (error + 'a) \<times> world \<Rightarrow> (error + outcome) \<times> world" where
  "returning kind r = (case r of (Inl err, w) \<Rightarrow> (Inl err, w) | (Inr x, w) \<Rightarrow> (Inr (kind x), w))"

definition run :: "lib \<Rightarrow> args \<Rightarrow> world \<Rightarrow> (error + outcome) \<times> world" where
  "run lib a w =
     (case validate_slug (arg_slug a) of
        Inl err \<Rightarrow> (Inl err, w)
      | Inr _ \<Rightarrow>
          (let input_path = arg_input a
           in if \<not> path_exists w input_path then
                (Inl (FileNotFoundError (''Input file does not exist: '' @ path_str input_path)), w)
              else if \<not> is_file w input_path then
                (Inl (ValueError (''Input path is not a file: '' @ path_str input_path)), w)
              else
                (let outdir = arg_outdir a;
                     w1 = mkdir outdir w
                 in case read_text input_path w1 of
                      (Inl err, w2) \<Rightarrow> (Inl err, w2)
                    | (Inr html, w2) \<Rightarrow>
                        (case make_backup_copy input_path outdir (arg_slug a) w2 of
                           (backup_path, w3) \<Rightarrow>
                             if arg_mode a = Single then
                               returning SingleFile (copy_single input_path outdir (arg_slug a) w3)
                             else
                               (let candidates =
                                      detect_candidates (json_loads lib) (json_raw_decode lib) html
                                in if candidates = [] then
                                     (Inl (RuntimeError no_payload_message), w3)
                                   else
                                     (let total_payload_bytes =
                                            sum_list (map payload_bytes candidates);
                                          threshold_bytes =
                                            py_int (arg_threshold_mb a * 1024 * 1024)
                                      in if arg_mode a = Auto
                                            \<and> int total_payload_bytes \<le> threshold_bytes then
                                           returning SingleFile
                                             (copy_single input_path outdir (arg_slug a) w3)
                                         else
                                           returning DirectoryPackage
                                             (externalize_to_directory lib html candidates
                                                outdir (arg_slug a) (arg_chunk_mb a) w3)))))))"

section \<open>Properties\<close>

subsection \<open>Definitions used to state the properties\<close>

text \<open>
  Simultaneous substitution, as the specification words it: every span is cut out of
  the original document and its text put in its place. \<open>splice_spans html pos rs\<close> copies
  the original from \<open>pos\<close> on, replacing the spans of \<open>rs\<close>, which come in ascending
  order.
\<close>

fun splice_spans :: "string \<Rightarrow> nat \<Rightarrow> replacement list \<Rightarrow> string" where
  "splice_spans html pos [] = drop pos html"
| "splice_spans html pos (r # rs) = py_slice html pos (r_start r) @ r_text r @ splice_spans html (r_end r) rs"

definition substitute_spans :: "string \<Rightarrow> replacement list \<Rightarrow> string" where
  "substitute_spans html rs = splice_spans html 0 (sort_key r_start rs)"

text \<open>Half-open spans \<open>[start, end)\<close> inside the text, and pairwise non-overlapping.\<close>

definition within_text :: "string \<Rightarrow> replacement \<Rightarrow> bool" where
  "within_text html r = (r_start r \<le> r_end r \<and> r_end r \<le> length html)"

definition disjoint_spans :: "replacement \<Rightarrow> replacement \<Rightarrow> bool" where
  "disjoint_spans r q = (r_end r \<le> r_start q \<or> r_end q \<le> r_start r)"

fun non_overlapping :: "replacement list \<Rightarrow> bool" where
  "non_overlapping [] = True"
| "non_overlapping (r # rs) = (list_all (disjoint_spans r) rs \<and> non_overlapping rs)"

text \<open>Spans in ascending order from \<open>pos\<close> on, each ending before the next starts.\<close>

fun chain :: "nat \<Rightarrow> replacement list \<Rightarrow> nat \<Rightarrow> bool" where
  "chain pos [] n = (pos \<le> n)"
| "chain pos (r # rs) n = (pos \<le> r_start r \<and> r_start r \<le> r_end r \<and> chain (r_end r) rs n)"

text \<open>A fragment fits the budget, or holds a single element.\<close>

definition fits :: "int \<Rightarrow> json list \<Rightarrow> bool" where
  "fits t frag = (int (length (dumps (JArr frag))) \<le> t \<or> length frag = 1)"

text \<open>
  An element can be encoded when its compact serialization is well-formed UTF-8, that
  is when no string in it holds a lone surrogate.
\<close>

definition encodable :: "json \<Rightarrow> bool" where
  "encodable v = utf8_valid (map of_char (dumps v))"

subsection \<open>JSON texts\<close>

text \<open>
  The grammar of RFC 8259, over the bytes of a text: what it means for a chunk file to
  hold valid JSON. White space is a space, a tab, a line feed or a carriage return.
\<close>

definition ws_char :: "char \<Rightarrow> bool" where
  "ws_char c = (c \<in> set [CHR 0x20, CHR 0x09, CHR 0x0A, CHR 0x0D])"

definition dec_digit :: "char \<Rightarrow> bool" where
  "dec_digit c = (c \<in> set ''0123456789'')"

definition hex_digit :: "char \<Rightarrow> bool" where
  "hex_digit c = (c \<in> set ''0123456789abcdefABCDEF'')"

text \<open>
  The characters between the quotes of a string: anything but the quote, the backslash
  and the control characters, or a backslash followed by one of \<^verbatim>\<open>" \ / b f n r t\<close>, or
  by \<^verbatim>\<open>u\<close> and four hexadecimal digits.
\<close>

fun json_chars :: "string \<Rightarrow> bool" where
  "json_chars [] = True"
| "json_chars (c # r) =
     (if c = CHR 0x5C then
        (case r of
           [] \<Rightarrow> False
         | e # r' \<Rightarrow>
             if e = CHR ''u'' then
               (case r' of
                  h1 # h2 # h3 # h4 # r'' \<Rightarrow>
                    hex_digit h1 \<and> hex_digit h2 \<and> hex_digit h3 \<and> hex_digit h4 \<and> json_chars r''
                | _ \<Rightarrow> False)
             else e \<in> set [CHR 0x22, CHR 0x5C, CHR ''/'', CHR ''b'', CHR ''f'', CHR ''n'', CHR ''r'', CHR ''t'']
                  \<and> json_chars r')
      else c \<noteq> CHR 0x22 \<and> 0x20 \<le> (of_char c :: nat) \<and> json_chars r)"

definition json_string_text :: "string \<Rightarrow> bool" where
  "json_string_text s =
     (2 \<le> length s \<and> hd s = CHR 0x22 \<and> last s = CHR 0x22 \<and> json_chars (butlast (tl s)))"

text \<open>
  A number: an optional minus sign, an integer part without a leading zero, an optional
  fraction and an optional exponent. \<^verbatim>\<open>NaN\<close>, \<^verbatim>\<open>Infinity\<close> and \<^verbatim>\<open>-Infinity\<close> are not numbers.
\<close>

definition digits1 :: "string \<Rightarrow> bool" where
  "digits1 s = (s \<noteq> [] \<and> list_all dec_digit s)"

definition json_exponent :: "string \<Rightarrow> bool" where
  "json_exponent s =
     (case s of
        [] \<Rightarrow> True
      | e # r \<Rightarrow>
          (e = CHR ''e'' \<or> e = CHR ''E'')
          \<and> digits1 (if r \<noteq> [] \<and> (hd r = CHR ''+'' \<or> hd r = CHR ''-'') then tl r else r))"

definition json_number_text :: "string \<Rightarrow> bool" where
  "json_number_text s =
     (let unsigned = (if s \<noteq> [] \<and> hd s = CHR ''-'' then tl s else s);
          int_part = takeWhile dec_digit unsigned;
          after_int = dropWhile dec_digit unsigned;
          has_frac = (after_int \<noteq> [] \<and> hd after_int = CHR ''.'');
          frac = (if has_frac then takeWhile dec_digit (tl after_int) else []);
          after_frac = (if has_frac then dropWhile dec_digit (tl after_int) else after_int)
      in (int_part = ''0'' \<or> (int_part \<noteq> [] \<and> hd int_part \<noteq> CHR ''0''))
         \<and> (if has_frac then frac \<noteq> [] else True)
         \<and> json_exponent after_frac)"

text \<open>
  Values, elements (a value with white space around it) and members of an object (a
  string, a colon and an element). A JSON text is an element in well-formed UTF-8, and
  a JSON array text is one that opens with a bracket.
\<close>

inductive json_value :: "string \<Rightarrow> bool"
  and json_element :: "string \<Rightarrow> bool"
  and json_member :: "string \<Rightarrow> bool" where
  json_null: "json_value ''null''"
| json_true: "json_value ''true''"
| json_false: "json_value ''false''"
| json_number: "json_number_text s \<Longrightarrow> json_value s"
| json_string: "json_string_text s \<Longrightarrow> json_value s"
| json_empty_array: "list_all ws_char w \<Longrightarrow> json_value (''['' @ w @ '']'')"
| json_array:
    "es \<noteq> [] \<Longrightarrow> \<forall>e \<in> set es. json_element e \<Longrightarrow> json_value (''['' @ join '','' es @ '']'')"
| json_empty_object: "list_all ws_char w \<Longrightarrow> json_value (''{'' @ w @ ''}'')"
| json_object:
    "ms \<noteq> [] \<Longrightarrow> \<forall>m \<in> set ms. json_member m \<Longrightarrow> json_value (''{'' @ join '','' ms @ ''}'')"
| json_elem:
    "list_all ws_char a \<Longrightarrow> json_value v \<Longrightarrow> list_all ws_char b \<Longrightarrow> json_element (a @ v @ b)"
| json_memb:
    "list_all ws_char a \<Longrightarrow> json_string_text k \<Longrightarrow> list_all ws_char b \<Longrightarrow> json_element e
       \<Longrightarrow> json_member (a @ k @ b @ '':'' @ e)"

definition json_text :: "string \<Rightarrow> bool" where
  "json_text s = (json_element s \<and> utf8_valid (map of_char s))"

definition json_array_text :: "string \<Rightarrow> bool" where
  "json_array_text s = (json_text s \<and> s \<noteq> [] \<and> hd s = CHR ''['')"

text \<open>
  A decoded value has finite floats when every float in it is written as a number, which
  is what \<^verbatim>\<open>float.__repr__\<close> gives for a finite float.
\<close>

fun finite_floats :: "json \<Rightarrow> bool" where
  "finite_floats (JFloat r) = json_number_text r"
| "finite_floats (JArr xs) = list_all finite_floats xs"
| "finite_floats (JObj kvs) = list_all (\<lambda>kv. finite_floats (snd kv)) kvs"
| "finite_floats v = True"

text \<open>
  How a JSON text begins: \<open>lead\<close> drops the white space in front, a value starts with
  one of the characters of \<open>value_start\<close>, and after the bracket that opens an array
  comes a value or the closing bracket.
\<close>

definition value_start :: "char \<Rightarrow> bool" where
  "value_start c = (c \<in> set ''ntf-0123456789[{'' \<or> c = CHR 0x22)"

definition lead :: "string \<Rightarrow> string" where
  "lead s = dropWhile ws_char s"

definition array_opens :: "string \<Rightarrow> bool" where
  "array_opens s =
     (\<forall>r. s = CHR ''['' # r \<longrightarrow>
        lead r \<noteq> [] \<and> (value_start (hd (lead r)) \<or> hd (lead r) = CHR '']''))"

subsection \<open>Runs\<close>

text \<open>
  The run reaches its mode switch when the slug is valid and the input is a file whose
  bytes are UTF-8; \<open>after_backup\<close> is the world at that point: the output directory
  made, the input read, the backup copy written.
\<close>

definition input_ready :: "args \<Rightarrow> world \<Rightarrow> string \<Rightarrow> bool" where
  "input_ready a w html =
     (validate_slug (arg_slug a) = Inr () \<and> files w (arg_input a) = Some html
      \<and> decode_utf8 html = Inr html)"

definition after_backup :: "args \<Rightarrow> world \<Rightarrow> world" where
  "after_backup a w =
     snd (make_backup_copy (arg_input a) (arg_outdir a) (arg_slug a)
            (snd (read_text (arg_input a) (mkdir (arg_outdir a) w))))"

definition detected :: "lib \<Rightarrow> string \<Rightarrow> candidate list" where
  "detected lib html = detect_candidates (json_loads lib) (json_raw_decode lib) html"

definition total_payload :: "candidate list \<Rightarrow> int" where
  "total_payload candidates = int (sum_list (map payload_bytes candidates))"

definition threshold_bytes :: "args \<Rightarrow> int" where
  "threshold_bytes a = py_int (arg_threshold_mb a * 1024 * 1024)"
text \<open>
  What it means for a chunk entry of the manifest to agree with the chunk file it
  names: the entry's path is \<^verbatim>\<open>data/\<close> and a file name, the file of that name in the
  data directory holds a text whose length in bytes is the entry's \<^verbatim>\<open>bytes\<close>, and for an
  entry of an array chunk that text is the serialization of an array whose number of
  elements is the entry's \<^verbatim>\<open>items\<close>.
\<close>

definition entry_consistent :: "path \<Rightarrow> world \<Rightarrow> chunk_entry \<Rightarrow> bool" where
  "entry_consistent data_dir w e =
     (\<exists>filename content.
        ce_path e = ''data/'' @ filename
        \<and> files w (data_dir @ [filename]) = Some content
        \<and> ce_bytes e = length content
        \<and> (ce_format e = ''json_array'' \<longrightarrow>
             (\<exists>arr. content = dumps (JArr arr) \<and> ce_items e = Some (length arr))))"

text \<open>The name of the chunk file number \<open>k\<close>, and the entry that belongs to it.\<close>

definition chunk_file :: "nat \<Rightarrow> string \<Rightarrow> string" where
  "chunk_file k ext = ''chunk_'' @ pad3 k @ ext"

definition entry_at :: "path \<Rightarrow> world \<Rightarrow> nat \<Rightarrow> chunk_entry \<Rightarrow> bool" where
  "entry_at data_dir w k e =
     (\<exists>ext content.
        (ext = ''.json'' \<or> ext = ''.txt'')
        \<and> ce_path e = ''data/'' @ chunk_file k ext
        \<and> files w (data_dir @ [chunk_file k ext]) = Some content
        \<and> ce_bytes e = length content
        \<and> (ce_format e = ''json_array'' \<longrightarrow>
             (\<exists>arr. content = dumps (JArr arr) \<and> ce_items e = Some (length arr))))"

text \<open>The number that a string of decimal digits writes.\<close>

definition dec_val :: "string \<Rightarrow> nat" where
  "dec_val s = foldl (\<lambda>n c. 10 * n + (of_char c - 48)) 0 s"

subsection \<open>Example inputs\<close>

text \<open>
  A stand-in for the library in the examples: the decoders answer as Python's do on the
  JSON texts that the example documents hold (\<^verbatim>\<open>{}\<close> in a JSON script element, a text
  that starts with \<^verbatim>\<open>[1]\<close> after an assignment) and fail on the other texts they are
  given there.
\<close>

definition example_lib :: lib where
  "example_lib =
     \<lparr>json_loads = (\<lambda>s. if s = ''{}'' then Some (JObj []) else None),
      json_raw_decode = (\<lambda>s. if take 3 s = ''[1]'' then Some (JArr [JInt 1], 3) else None),
      json_dumps_str = encode_basestring,
      json_dumps_manifest = (\<lambda>m. ''{}''),
      utc_now_isoformat = ''2026-01-01T00:00:00+00:00'',
      loader_script = ''<script>/* KAROSPACE_LOADER_RUNTIME */</script>''\<rparr>"

text \<open>A document without any payload, and one with the assignment \<^verbatim>\<open>var d = [1];\<close>.\<close>

definition doc_plain :: string where
  "doc_plain = ''<html><body>hello</body></html>''"

definition doc_assignment :: string where
  "doc_assignment = ''<html><script>var d = [1];</script></html>''"

text \<open>A world that holds one file, and the command line
  \<^verbatim>\<open>--input /in.html --outdir /out --slug v\<close> with the given mode, a threshold given
  in bytes, and the chunk size in megabytes.\<close>

definition world_with :: "path \<Rightarrow> string \<Rightarrow> world" where
  "world_with p content = \<lparr>files = [p \<mapsto> content], dirs = {}, effects = []\<rparr>"

definition example_args :: "mode \<Rightarrow> int \<Rightarrow> real \<Rightarrow> args" where
  "example_args m threshold chunk_mb =
     \<lparr>arg_input = [''in.html''], arg_outdir = [''out''], arg_slug = ''v'', arg_mode = m,
      arg_threshold_mb = real_of_int threshold / 1048576, arg_chunk_mb = chunk_mb\<rparr>"

text \<open>Two JSON script elements, the first with the empty id attribute \<^verbatim>\<open>id=""\<close>, the
  second without an id:
  \<^verbatim>\<open><script type="application/json" id="">{}</script><script type="application/json">{}</script>\<close>.\<close>

definition doc_empty_id :: string where
  "doc_empty_id =
     ''<script type='' @ [CHR 0x22] @ ''application/json'' @ [CHR 0x22]
       @ '' id='' @ [CHR 0x22, CHR 0x22] @ ''>{}</script>''
     @ ''<script type='' @ [CHR 0x22] @ ''application/json'' @ [CHR 0x22] @ ''>{}</script>''"

subsection \<open>Serializations are JSON texts\<close>

lemma hex_digit_char: "k < 16 \<Longrightarrow> hex_digit (digit_char k)"
proof -
  assume "k < 16"
  then have "''0123456789abcdef'' ! k \<in> set ''0123456789abcdef''"
    by (intro nth_mem) simp
  then show ?thesis by (auto simp: digit_char_def hex_digit_def)
qed

lemma dec_digit_char: "d < 10 \<Longrightarrow> dec_digit (digit_char d)"
proof -
  assume "d < 10"
  then have "''0123456789abcdef'' ! d = ''0123456789'' ! d"
    using nth_append[of "''0123456789''" "''abcdef''" d] by simp
  moreover from \<open>d < 10\<close> have "''0123456789'' ! d \<in> set ''0123456789''"
    by (intro nth_mem) simp
  ultimately show ?thesis by (simp only: digit_char_def dec_digit_def)
qed

lemma digit_char_zero: "d < 10 \<Longrightarrow> digit_char d = CHR ''0'' \<Longrightarrow> d = 0"
proof -
  assume "d < 10" and z: "digit_char d = CHR ''0''"
  then consider "d = 0" | "d = 1" | "d = 2" | "d = 3" | "d = 4" | "d = 5" | "d = 6" | "d = 7"
    | "d = 8" | "d = 9"
    by atomize_elim arith
  then show ?thesis using z by cases (simp_all add: digit_char_def)
qed

lemma json_chars_escape: "json_chars (escape_char c @ r) = json_chars r"
proof -
  have z: "hex_digit CHR ''0''" by (simp add: hex_digit_def)
  have h: "(of_char c :: nat) < 0x20 \<Longrightarrow>
             hex_digit (digit_char ((of_char c :: nat) div 16))
             \<and> hex_digit (digit_char ((of_char c :: nat) mod 16))"
    by (intro conjI hex_digit_char) simp_all
  show ?thesis
    using z h by (auto simp: escape_char_def)
qed

lemma json_chars_escaped: "json_chars (concat (map escape_char s))"
  by (induction s) (simp_all add: json_chars_escape)

lemma encode_basestring_string: "json_string_text (encode_basestring s)"
  by (simp add: json_string_text_def encode_basestring_def json_chars_escaped butlast_append)

lemma str_nat_nonempty: "str_nat n \<noteq> []"
  by (subst str_nat.simps) simp

lemma str_nat_dec_digits: "list_all dec_digit (str_nat n)"
proof (induction n rule: str_nat.induct)
  case (1 n)
  show ?case
  proof (cases "n < 10")
    case True
    then show ?thesis by (subst str_nat.simps) (simp add: dec_digit_char)
  next
    case False
    with 1 have "list_all dec_digit (str_nat (n div 10))" by simp
    with False show ?thesis by (subst str_nat.simps) (simp add: dec_digit_char)
  qed
qed

lemma str_nat_no_leading_zero: "0 < n \<Longrightarrow> hd (str_nat n) \<noteq> CHR ''0''"
proof (induction n rule: str_nat.induct)
  case (1 n)
  show ?case
  proof (cases "n < 10")
    case True
    with "1.prems" show ?thesis
      by (subst str_nat.simps) (auto dest: digit_char_zero)
  next
    case False
    with 1 have "hd (str_nat (n div 10)) \<noteq> CHR ''0''" by simp
    with False show ?thesis
      by (subst str_nat.simps) (simp add: str_nat_nonempty)
  qed
qed

lemma str_nat_zero: "str_nat 0 = ''0''"
  by (subst str_nat.simps) (simp add: digit_char_def)

lemma str_nat_number: "json_number_text (str_nat n)"
proof -
  have nm: "\<not> dec_digit CHR ''-''" by (simp add: dec_digit_def)
  have hd_minus: "hd (str_nat n) \<noteq> CHR ''-''"
    using str_nat_dec_digits[of n] str_nat_nonempty[of n] nm
    by (cases "str_nat n") auto
  have tw: "takeWhile dec_digit (str_nat n) = str_nat n"
    using str_nat_dec_digits[of n] by (simp add: takeWhile_eq_all_conv list_all_iff)
  have dw: "dropWhile dec_digit (str_nat n) = []"
    using str_nat_dec_digits[of n] by (simp add: list_all_iff)
  have lead: "str_nat n = ''0'' \<or> hd (str_nat n) \<noteq> CHR ''0''"
    using str_nat_zero str_nat_no_leading_zero[of n] by (cases "n = 0") auto
  show ?thesis
    using lead str_nat_dec_digits[of n]
    by (simp add: list_all_iff json_number_text_def Let_def json_exponent_def str_nat_nonempty hd_minus tw dw)
qed

lemma str_int_number: "json_number_text (str_int i)"
proof (cases "i < 0")
  case False
  then show ?thesis by (simp add: str_int_def str_nat_number)
next
  case True
  let ?s = "str_nat (nat (- i))"
  have tw: "takeWhile dec_digit ?s = ?s"
    using str_nat_dec_digits[of "nat (- i)"] by (simp add: takeWhile_eq_all_conv list_all_iff)
  have dw: "dropWhile dec_digit ?s = []"
    using str_nat_dec_digits[of "nat (- i)"] by (simp add: list_all_iff)
  have lead: "hd ?s \<noteq> CHR ''0''"
    using True by (intro str_nat_no_leading_zero) simp
  show ?thesis
    using True lead str_nat_dec_digits[of "nat (- i)"]
    by (simp add: list_all_iff str_int_def json_number_text_def Let_def json_exponent_def str_nat_nonempty tw dw)
qed

lemma dumps_json_value: "finite_floats v \<Longrightarrow> json_value (dumps v)"
proof (induction v)
  case JNull
  show ?case using json_null by simp
next
  case (JBool b)
  show ?case using json_true json_false by simp
next
  case (JInt i)
  show ?case by (simp add: json_number str_int_number)
next
  case (JFloat r)
  then show ?case by (simp add: json_number)
next
  case (JStr s)
  show ?case by (simp add: json_string encode_basestring_string)
next
  case (JArr xs)
  show ?case
  proof (cases "xs = []")
    case True
    then show ?thesis using json_empty_array[of "[]"] by simp
  next
    case False
    have "\<forall>e \<in> set (map dumps xs). json_element e"
    proof
      fix e assume "e \<in> set (map dumps xs)"
      then obtain x where x: "x \<in> set xs" and e: "e = dumps x" by auto
      from JArr.prems x have "finite_floats x" by (simp add: list_all_iff)
      with JArr.IH x have "json_value (dumps x)" by simp
      then show "json_element e" using json_elem[of "[]" "dumps x" "[]"] e by simp
    qed
    with False show ?thesis using json_array[of "map dumps xs"] by simp
  qed
next
  case (JObj kvs)
  let ?m = "\<lambda>kv. encode_basestring (fst kv) @ '':'' @ dumps (snd kv)"
  show ?case
  proof (cases "kvs = []")
    case True
    then show ?thesis using json_empty_object[of "[]"] by simp
  next
    case False
    have "\<forall>m \<in> set (map ?m kvs). json_member m"
    proof
      fix m assume "m \<in> set (map ?m kvs)"
      then obtain kv where kv: "kv \<in> set kvs" and m: "m = ?m kv" by auto
      from JObj.prems kv have "finite_floats (snd kv)" by (simp add: list_all_iff)
      moreover have "snd kv \<in> Basic_BNFs.snds kv" by (cases kv) simp
      ultimately have "json_value (dumps (snd kv))" using JObj.IH kv by blast
      then have "json_element (dumps (snd kv))"
        using json_elem[of "[]" "dumps (snd kv)" "[]"] by simp
      then show "json_member m"
        using json_memb[of "[]" "encode_basestring (fst kv)" "[]" "dumps (snd kv)"] m
        by (simp add: encode_basestring_string)
    qed
    with False show ?thesis using json_object[of "map ?m kvs"] by simp
  qed
qed

subsection \<open>Serializations of encodable values can be encoded\<close>

lemma utf8_valid_1: "b0 < 0x80 \<Longrightarrow> utf8_valid (b0 # bs) = utf8_valid bs"
  by simp

lemma utf8_valid_2:
  "0xC2 \<le> b0 \<Longrightarrow> b0 \<le> 0xDF \<Longrightarrow>
     utf8_valid (b0 # bs) = (\<exists>b1 r. bs = b1 # r \<and> is_continuation b1 \<and> utf8_valid r)"
  by (cases bs) simp_all

lemma utf8_valid_3:
  "0xE0 \<le> b0 \<Longrightarrow> b0 \<le> 0xEF \<Longrightarrow>
     utf8_valid (b0 # bs) =
       (\<exists>b1 b2 r. bs = b1 # b2 # r \<and> is_continuation b1 \<and> is_continuation b2
          \<and> (b0 = 0xE0 \<longrightarrow> 0xA0 \<le> b1) \<and> (b0 = 0xED \<longrightarrow> b1 \<le> 0x9F) \<and> utf8_valid r)"
  by (cases bs; cases "tl bs") simp_all

lemma utf8_valid_4:
  "0xF0 \<le> b0 \<Longrightarrow> b0 \<le> 0xF4 \<Longrightarrow>
     utf8_valid (b0 # bs) =
       (\<exists>b1 b2 b3 r. bs = b1 # b2 # b3 # r
          \<and> is_continuation b1 \<and> is_continuation b2 \<and> is_continuation b3
          \<and> (b0 = 0xF0 \<longrightarrow> 0x90 \<le> b1) \<and> (b0 = 0xF4 \<longrightarrow> b1 \<le> 0x8F) \<and> utf8_valid r)"
  by (cases bs; cases "tl bs"; cases "tl (tl bs)") simp_all

lemma utf8_valid_bad:
  "\<not> b0 < 0x80 \<Longrightarrow> \<not> (0xC2 \<le> b0 \<and> b0 \<le> 0xDF) \<Longrightarrow> \<not> (0xE0 \<le> b0 \<and> b0 \<le> 0xEF)
     \<Longrightarrow> \<not> (0xF0 \<le> b0 \<and> b0 \<le> 0xF4) \<Longrightarrow> utf8_valid (b0 # bs) = False"
  by auto

lemma utf8_valid_append: "utf8_valid a \<Longrightarrow> utf8_valid b \<Longrightarrow> utf8_valid (a @ b)"
proof (induction a rule: length_induct)
  case (1 a)
  have IH: "\<And>ys. length ys < length a \<Longrightarrow> utf8_valid ys \<Longrightarrow> utf8_valid (ys @ b)"
    using "1.IH" "1.prems"(2) by blast
  show ?case
  proof (cases a)
    case Nil
    then show ?thesis using "1.prems" by simp
  next
    case (Cons b0 bs)
    have va: "utf8_valid (b0 # bs)" using "1.prems"(1) Cons by simp
    consider (one) "b0 < 0x80" | (two) "0xC2 \<le> b0" "b0 \<le> 0xDF"
      | (three) "0xE0 \<le> b0" "b0 \<le> 0xEF" | (four) "0xF0 \<le> b0" "b0 \<le> 0xF4"
      | (bad) "\<not> b0 < 0x80" "\<not> (0xC2 \<le> b0 \<and> b0 \<le> 0xDF)" "\<not> (0xE0 \<le> b0 \<and> b0 \<le> 0xEF)"
          "\<not> (0xF0 \<le> b0 \<and> b0 \<le> 0xF4)"
      by blast
    then show ?thesis
    proof cases
      case one
      from va have "utf8_valid bs" by (simp only: utf8_valid_1[OF one])
      then have "utf8_valid (bs @ b)" using IH[of bs] Cons by simp
      then show ?thesis by (simp only: Cons append_Cons utf8_valid_1[OF one])
    next
      case two
      from va obtain b1 r where bs: "bs = b1 # r" and c: "is_continuation b1" and r: "utf8_valid r"
        by (auto simp only: utf8_valid_2[OF two])
      have "utf8_valid (r @ b)" using IH[of r] r Cons bs by simp
      with c show ?thesis by (simp only: Cons bs append_Cons utf8_valid_2[OF two]) blast
    next
      case three
      from va obtain b1 b2 r where bs: "bs = b1 # b2 # r"
        and c: "is_continuation b1" "is_continuation b2"
          "b0 = 0xE0 \<longrightarrow> 0xA0 \<le> b1" "b0 = 0xED \<longrightarrow> b1 \<le> 0x9F"
        and r: "utf8_valid r"
        by (auto simp only: utf8_valid_3[OF three])
      have "utf8_valid (r @ b)" using IH[of r] r Cons bs by simp
      with c show ?thesis by (simp only: Cons bs append_Cons utf8_valid_3[OF three]) blast
    next
      case four
      from va obtain b1 b2 b3 r where bs: "bs = b1 # b2 # b3 # r"
        and c: "is_continuation b1" "is_continuation b2" "is_continuation b3"
          "b0 = 0xF0 \<longrightarrow> 0x90 \<le> b1" "b0 = 0xF4 \<longrightarrow> b1 \<le> 0x8F"
        and r: "utf8_valid r"
        by (auto simp only: utf8_valid_4[OF four])
      have "utf8_valid (r @ b)" using IH[of r] r Cons bs by simp
      with c show ?thesis by (simp only: Cons bs append_Cons utf8_valid_4[OF four]) blast
    next
      case bad
      with va show ?thesis by (simp only: utf8_valid_bad[OF bad])
    qed
  qed
qed

lemma utf8_valid_join:
  "list_all (\<lambda>p. utf8_valid (map of_char p)) ps \<Longrightarrow> utf8_valid (map of_char (join '','' ps))"
  by (induction "'',''" ps rule: join.induct) (simp_all add: utf8_valid_append utf8_valid_1 del: utf8_valid.simps(2))

lemma encodable_array: "list_all encodable frag \<Longrightarrow> encodable (JArr frag)"
proof -
  assume "list_all encodable frag"
  then have j: "utf8_valid (map of_char (join '','' (map dumps frag)))"
    by (intro utf8_valid_join) (simp add: list_all_iff encodable_def)
  have "utf8_valid (map of_char ''['')" "utf8_valid (map of_char '']'')" by simp_all
  with j have "utf8_valid (map of_char ''['' @ map of_char (join '','' (map dumps frag)) @ map of_char '']'')"
    by (intro utf8_valid_append)
  then show ?thesis by (simp add: encodable_def del: utf8_valid.simps)
qed

subsection \<open>How a JSON text begins\<close>

lemma value_start_not_ws: "value_start c \<Longrightarrow> \<not> ws_char c"
  by (auto simp: value_start_def ws_char_def)

lemma value_start_open: "value_start CHR ''[''" "value_start CHR ''{''"
  by (simp_all add: value_start_def)

lemma lead_ws: "list_all ws_char w \<Longrightarrow> x \<noteq> [] \<Longrightarrow> \<not> ws_char (hd x) \<Longrightarrow> lead (w @ x) = x"
  by (cases x) (simp_all add: lead_def list_all_iff dropWhile_append2)

lemma lead_append: "lead x \<noteq> [] \<Longrightarrow> lead (x @ y) = lead x @ y"
proof -
  assume "lead x \<noteq> []"
  then obtain c where "c \<in> set x" "\<not> ws_char c"
    by (auto simp: lead_def dropWhile_eq_Nil_conv)
  then show ?thesis by (simp add: lead_def dropWhile_append1)
qed

lemma join_hd: "es \<noteq> [] \<Longrightarrow> \<exists>rest. join sep es = hd es @ rest"
  by (induction sep es rule: join.induct) auto

lemma number_start: "json_number_text s \<Longrightarrow> s \<noteq> [] \<and> (hd s = CHR ''-'' \<or> dec_digit (hd s))"
proof -
  assume n: "json_number_text s"
  define u where "u = (if s \<noteq> [] \<and> hd s = CHR ''-'' then tl s else s)"
  from n have "takeWhile dec_digit u \<noteq> []"
    by (auto simp: json_number_text_def Let_def u_def)
  then have "u \<noteq> [] \<and> dec_digit (hd u)"
    by (cases u) (auto split: if_splits)
  then show ?thesis by (auto simp: u_def split: if_splits)
qed

lemma string_start: "json_string_text s \<Longrightarrow> s \<noteq> [] \<and> hd s = CHR 0x22"
  by (auto simp: json_string_text_def)

lemma json_first_characters:
  "(json_value s \<longrightarrow> s \<noteq> [] \<and> value_start (hd s) \<and> array_opens s)
   \<and> (json_element t \<longrightarrow> lead t \<noteq> [] \<and> value_start (hd (lead t)) \<and> array_opens (lead t))
   \<and> (json_member m \<longrightarrow> True)"
proof (induction rule: json_value_json_element_json_member.induct)
  case json_null
  show ?case by (simp add: value_start_def array_opens_def)
next
  case json_true
  show ?case by (simp add: value_start_def array_opens_def)
next
  case json_false
  show ?case by (simp add: value_start_def array_opens_def)
next
  case (json_number s)
  from number_start[OF this] show ?case
    by (cases s) (auto simp: value_start_def array_opens_def dec_digit_def)
next
  case (json_string s)
  from string_start[OF this] show ?case
    by (cases s) (auto simp: value_start_def array_opens_def)
next
  case (json_empty_array w)
  have "lead (w @ '']'') = '']''"
    using json_empty_array by (intro lead_ws) (simp_all add: ws_char_def)
  then show ?case by (simp add: value_start_open array_opens_def)
next
  case (json_array es)
  then have q: "lead (hd es) \<noteq> []" "value_start (hd (lead (hd es)))" by simp_all
  from json_array(1) obtain rest where "join '','' es = hd es @ rest"
    using join_hd by blast
  then have "lead (join '','' es @ '']'') = lead (hd es) @ rest @ '']''"
    using lead_append[OF q(1), of "rest @ '']''"] by simp
  with q show ?case by (simp add: value_start_open array_opens_def)
next
  case (json_empty_object w)
  show ?case by (simp add: value_start_open array_opens_def)
next
  case (json_object ms)
  show ?case by (simp add: value_start_open array_opens_def)
next
  case (json_elem a v b)
  then have v: "v \<noteq> []" "value_start (hd v)" "array_opens v" by simp_all
  have l: "lead (a @ v @ b) = v @ b"
    using json_elem(1) v by (intro lead_ws) (simp_all add: value_start_not_ws)
  have "array_opens (v @ b)"
    unfolding array_opens_def
  proof (intro allI impI)
    fix r assume "v @ b = CHR ''['' # r"
    with v(1) obtain r' where r': "v = CHR ''['' # r'" "r = r' @ b"
      by (cases v) auto
    with v(3) have "lead r' \<noteq> []" "value_start (hd (lead r')) \<or> hd (lead r') = CHR '']''"
      by (simp_all add: array_opens_def)
    then show "lead r \<noteq> [] \<and> (value_start (hd (lead r)) \<or> hd (lead r) = CHR '']'')"
      using lead_append[of r' b] r'(2) by simp
  qed
  with v l show ?case by simp
next
  case (json_memb a k b e)
  show ?case by simp
qed

lemma infinity_not_json: "\<not> json_element ''[Infinity]''"
proof
  assume "json_element ''[Infinity]''"
  then have "array_opens (lead ''[Infinity]'')"
    using json_first_characters by blast
  moreover have "lead ''[Infinity]'' = ''[Infinity]''" "lead ''Infinity]'' = ''Infinity]''"
    by (simp_all add: lead_def ws_char_def)
  ultimately show False by (simp add: array_opens_def value_start_def)
qed

subsection \<open>Array slicing\<close>

lemma length_join:
  "length (join sep ps) = sum_list (map length ps) + length sep * (length ps - 1)"
  by (induction sep ps rule: join.induct) auto

lemma join_snoc:
  "join sep (ps @ [p]) = (if ps = [] then p else join sep ps @ sep @ p)"
  by (induction sep ps rule: join.induct) auto

lemma dumps_arr_snoc:
  "xs \<noteq> [] \<Longrightarrow>
     length (dumps (JArr (xs @ [x]))) = length (dumps (JArr xs)) + 1 + length (dumps x)"
  by (simp add: join_snoc)

lemma split_array_loop_raises:
  "\<not> list_all encodable items \<Longrightarrow>
     split_array_loop t items chunks current cb = Inl UnicodeEncodeError"
  by (induction items arbitrary: chunks current cb)
     (auto simp: encodable_def encode_utf8_def Let_def)

lemma split_array_loop_step:
  "encodable item \<Longrightarrow>
     split_array_loop t (item # items) chunks current cb =
       (if current \<noteq> [] \<and> cb + 1 + int (length (dumps item)) > t
        then split_array_loop t items (chunks @ [current]) [item] (2 + int (length (dumps item)))
        else split_array_loop t items chunks (current @ [item])
               ((if current \<noteq> [] then cb + 1 else cb) + int (length (dumps item))))"
  by (simp add: encodable_def encode_utf8_def Let_def)

lemma split_array_loop_returns:
  "list_all encodable items \<Longrightarrow> \<exists>r. split_array_loop t items chunks current cb = Inr r"
  by (induction items arbitrary: chunks current cb)
     (simp_all add: split_array_loop_step del: split_array_loop.simps(2))

lemma split_array_loop_concat:
  "list_all encodable items \<Longrightarrow> split_array_loop t items chunks current cb = Inr r
     \<Longrightarrow> concat r = concat chunks @ current @ items"
  by (induction items arbitrary: chunks current cb)
     (auto simp: split_array_loop_step simp del: split_array_loop.simps(2) split: if_splits)

lemma split_array_loop_fits:
  "\<lbrakk>list_all encodable items;
    split_array_loop t items chunks current cb = Inr r;
    \<forall>c \<in> set chunks. fits t c \<and> c \<noteq> [];
    cb = int (length (dumps (JArr current)));
    current \<noteq> [] \<longrightarrow> fits t current\<rbrakk>
   \<Longrightarrow> \<forall>c \<in> set r. fits t c \<and> c \<noteq> []"
proof (induction items arbitrary: chunks current cb)
  case Nil
  then show ?case by (auto split: if_splits)
next
  case (Cons item items)
  let ?ib = "int (length (dumps item))"
  have enc: "encodable item" "list_all encodable items" using Cons.prems(1) by simp_all
  note step = split_array_loop_step[OF enc(1), of t items chunks current cb]
  have single: "fits t [item]" by (simp add: fits_def)
  have p: "(if current \<noteq> [] \<and> cb + 1 + ?ib > t
            then split_array_loop t items (chunks @ [current]) [item] (2 + ?ib)
            else split_array_loop t items chunks (current @ [item])
                   ((if current \<noteq> [] then cb + 1 else cb) + ?ib)) = Inr r"
    using Cons.prems(2) by (simp only: step)
  show ?case
  proof (cases "current = []")
    case True
    have "split_array_loop t items chunks [item] (cb + ?ib) = Inr r"
      using p True by simp
    then show ?thesis
      by (rule Cons.IH[OF enc(2)]) (use Cons.prems True single in auto)
  next
    case False
    show ?thesis
    proof (cases "cb + 1 + ?ib > t")
      case over: True
      have "split_array_loop t items (chunks @ [current]) [item] (2 + ?ib) = Inr r"
        using p False over by simp
      then show ?thesis
        by (rule Cons.IH[OF enc(2)]) (use Cons.prems False single in auto)
    next
      case under: False
      have len: "int (length (dumps (JArr (current @ [item])))) = cb + 1 + ?ib"
        using dumps_arr_snoc[OF False, of item] Cons.prems(4) by simp
      have "split_array_loop t items chunks (current @ [item]) (cb + 1 + ?ib) = Inr r"
        using p False under by simp
      then show ?thesis
        by (rule Cons.IH[OF enc(2)]) (use Cons.prems under len in \<open>auto simp: fits_def\<close>)
    qed
  qed
qed

lemma fits_cases:
  "fits t frag \<Longrightarrow>
     int (length (dumps (JArr frag))) \<le> t \<or> (\<exists>x. frag = [x] \<and> int (length (dumps x)) + 2 > t)"
  unfolding fits_def
  by (cases frag; cases "tl frag") auto

lemma split_array_returns:
  assumes "0 < target_bytes" and "list_all encodable items"
  shows "\<exists>frags. split_array_for_target_bytes items target_bytes = Inr frags
           \<and> concat frags = items \<and> (items = [] \<longrightarrow> frags = [[]])
           \<and> (items \<noteq> [] \<longrightarrow> (\<forall>c \<in> set frags. fits target_bytes c \<and> c \<noteq> []))"
proof (cases "items = []")
  case True
  with assms show ?thesis by (simp add: split_array_for_target_bytes_def)
next
  case False
  from split_array_loop_returns[OF assms(2)] obtain r
    where r: "split_array_loop target_bytes items [] [] 2 = Inr r" by blast
  have "concat r = items" using split_array_loop_concat[OF assms(2) r] by simp
  moreover have "\<forall>c \<in> set r. fits target_bytes c \<and> c \<noteq> []"
    by (rule split_array_loop_fits[OF assms(2) r]) auto
  ultimately show ?thesis using False assms(1) r
    by (simp add: split_array_for_target_bytes_def)
qed

lemma split_array_raises:
  assumes "0 < target_bytes" and "\<not> list_all encodable items"
  shows "split_array_for_target_bytes items target_bytes = Inl UnicodeEncodeError"
proof -
  from assms(2) have "items \<noteq> []" by auto
  with assms show ?thesis
    by (simp add: split_array_for_target_bytes_def split_array_loop_raises)
qed

lemma array_text:
  assumes "list_all encodable frag" and "list_all finite_floats frag"
  shows "json_array_text (dumps (JArr frag))"
proof -
  have "finite_floats (JArr frag)" using assms(2) by simp
  then have "json_value (dumps (JArr frag))" by (rule dumps_json_value)
  then have "json_element (dumps (JArr frag))"
    using json_elem[of "[]" "dumps (JArr frag)" "[]"] by simp
  moreover have "utf8_valid (map of_char (dumps (JArr frag)))"
    using encodable_array[OF assms(1)] by (simp only: encodable_def)
  ultimately show ?thesis by (simp add: json_array_text_def json_text_def)
qed

text \<open>
  C1, as the code has it. For every JSON array of which no element holds a lone
  surrogate and every positive byte budget, \<^verbatim>\<open>split_array_for_target_bytes\<close> returns
  fragments that, concatenated in order, are the array; the empty array gives exactly
  one fragment, the empty array; the serialization of each fragment as an array can be
  encoded as UTF-8, and it is a valid JSON array text when no float of the array is
  \<^verbatim>\<open>NaN\<close> or infinite. For an array with an element that holds a lone surrogate the call
  raises \<^verbatim>\<open>UnicodeEncodeError\<close>.
\<close>

theorem split_array_round_trip:
  assumes "0 < target_bytes"
  shows "(list_all encodable items \<longrightarrow>
            (\<exists>frags. split_array_for_target_bytes items target_bytes = Inr frags
               \<and> concat frags = items
               \<and> (items = [] \<longrightarrow> frags = [[]])
               \<and> list_all (\<lambda>frag. encodable (JArr frag)) frags
               \<and> (list_all finite_floats items \<longrightarrow>
                    list_all (\<lambda>frag. json_array_text (dumps (JArr frag))) frags)))
         \<and> (\<not> list_all encodable items \<longrightarrow>
              split_array_for_target_bytes items target_bytes = Inl UnicodeEncodeError)"
proof (intro conjI impI)
  assume enc: "list_all encodable items"
  from split_array_returns[OF assms enc] obtain frags
    where f: "split_array_for_target_bytes items target_bytes = Inr frags"
      "concat frags = items" "items = [] \<longrightarrow> frags = [[]]" by blast
  have sub: "\<And>frag. frag \<in> set frags \<Longrightarrow> set frag \<subseteq> set items"
    using f(2) by auto
  have e: "list_all (\<lambda>frag. encodable (JArr frag)) frags"
    unfolding list_all_iff
  proof
    fix frag assume "frag \<in> set frags"
    with sub enc have "list_all encodable frag" by (auto simp: list_all_iff)
    then show "encodable (JArr frag)" by (rule encodable_array)
  qed
  have j: "list_all finite_floats items \<longrightarrow>
             list_all (\<lambda>frag. json_array_text (dumps (JArr frag))) frags"
  proof
    assume fin: "list_all finite_floats items"
    show "list_all (\<lambda>frag. json_array_text (dumps (JArr frag))) frags"
      unfolding list_all_iff
    proof
      fix frag assume "frag \<in> set frags"
      with sub enc fin have "list_all encodable frag" "list_all finite_floats frag"
        by (auto simp: list_all_iff)
      then show "json_array_text (dumps (JArr frag))" by (rule array_text)
    qed
  qed
  from f e j
  show "\<exists>frags. split_array_for_target_bytes items target_bytes = Inr frags
               \<and> concat frags = items
               \<and> (items = [] \<longrightarrow> frags = [[]])
               \<and> list_all (\<lambda>frag. encodable (JArr frag)) frags
               \<and> (list_all finite_floats items \<longrightarrow>
                    list_all (\<lambda>frag. json_array_text (dumps (JArr frag))) frags)"
    by blast
next
  assume "\<not> list_all encodable items"
  then show "split_array_for_target_bytes items target_bytes = Inl UnicodeEncodeError"
    by (rule split_array_raises[OF assms])
qed

theorem split_array_round_trip_witness:
  "(0::int) < 5
   \<and> list_all encodable [JInt 1, JInt 2, JInt 3]
   \<and> list_all finite_floats [JInt 1, JInt 2, JInt 3]
   \<and> split_array_for_target_bytes [JInt 1, JInt 2, JInt 3] 5 = Inr [[JInt 1, JInt 2], [JInt 3]]
   \<and> json_array_text (dumps (JArr [JInt 1, JInt 2]))
   \<and> json_array_text (dumps (JArr [JInt 3]))
   \<and> \<not> list_all encodable [JStr [CHR 0xED, CHR 0xA0, CHR 0x80]]
   \<and> split_array_for_target_bytes [JStr [CHR 0xED, CHR 0xA0, CHR 0x80]] 5 = Inl UnicodeEncodeError"
proof -
  have e: "list_all encodable [JInt 1, JInt 2, JInt 3]" by code_simp
  have f: "list_all finite_floats [JInt 1, JInt 2, JInt 3]" by simp
  have s: "split_array_for_target_bytes [JInt 1, JInt 2, JInt 3] 5 = Inr [[JInt 1, JInt 2], [JInt 3]]"
    by code_simp
  have n: "\<not> list_all encodable [JStr [CHR 0xED, CHR 0xA0, CHR 0x80]]" by code_simp
  have "json_array_text (dumps (JArr [JInt 1, JInt 2])) \<and> json_array_text (dumps (JArr [JInt 3]))"
    using split_array_round_trip[of 5 "[JInt 1, JInt 2, JInt 3]"] e f
    by (simp only: s) simp
  moreover have "split_array_for_target_bytes [JStr [CHR 0xED, CHR 0xA0, CHR 0x80]] 5 = Inl UnicodeEncodeError"
    using split_array_round_trip[of 5 "[JStr [CHR 0xED, CHR 0xA0, CHR 0x80]]"] n by simp
  ultimately show ?thesis using e f s n by simp
qed

text \<open>
  C1 as stated fails, twice. The array \<^verbatim>\<open>["\ud800"]\<close>, whose string is a lone surrogate,
  has no fragments: the call raises \<^verbatim>\<open>UnicodeEncodeError\<close>. And the array \<^verbatim>\<open>[1e999]\<close>,
  whose float the decoder reads as infinity, gives one fragment that is written
  \<^verbatim>\<open>[Infinity]\<close>, which is not a JSON text.
\<close>

theorem split_array_round_trip_counterexample:
  "split_array_for_target_bytes [JStr [CHR 0xED, CHR 0xA0, CHR 0x80]] 1024 = Inl UnicodeEncodeError
   \<and> split_array_for_target_bytes [JFloat ''Infinity''] 1024 = Inr [[JFloat ''Infinity'']]
   \<and> dumps (JArr [JFloat ''Infinity'']) = ''[Infinity]''
   \<and> \<not> json_array_text ''[Infinity]''"
proof -
  have "split_array_for_target_bytes [JStr [CHR 0xED, CHR 0xA0, CHR 0x80]] 1024 = Inl UnicodeEncodeError"
    by code_simp
  moreover have "split_array_for_target_bytes [JFloat ''Infinity''] 1024 = Inr [[JFloat ''Infinity'']]"
    by code_simp
  moreover have "dumps (JArr [JFloat ''Infinity'']) = ''[Infinity]''" by simp
  moreover have "\<not> json_array_text ''[Infinity]''"
    using infinity_not_json by (simp add: json_array_text_def json_text_def)
  ultimately show ?thesis by blast
qed

text \<open>
  C3, as the code has it. For every JSON array of which no element holds a lone
  surrogate and every positive byte budget, each fragment, serialized compactly, is at
  most the budget, except a fragment that holds a single element whose serialization
  with the two brackets exceeds the budget, and except the empty fragment of the empty
  array under a budget of one byte. For an array with an element that holds a lone
  surrogate the call raises \<^verbatim>\<open>UnicodeEncodeError\<close> and there are no fragments.
\<close>

theorem split_array_byte_bound:
  assumes "0 < target_bytes"
  shows "(list_all encodable items \<longrightarrow>
            (\<exists>frags. split_array_for_target_bytes items target_bytes = Inr frags \<and>
               (\<forall>frag \<in> set frags.
                  int (length (dumps (JArr frag))) \<le> target_bytes
                  \<or> (\<exists>x. frag = [x] \<and> int (length (dumps x)) + 2 > target_bytes)
                  \<or> (frag = [] \<and> items = [] \<and> target_bytes = 1))))
         \<and> (\<not> list_all encodable items \<longrightarrow>
              split_array_for_target_bytes items target_bytes = Inl UnicodeEncodeError)"
proof (intro conjI impI)
  assume enc: "list_all encodable items"
  from split_array_returns[OF assms enc] obtain frags
    where f: "split_array_for_target_bytes items target_bytes = Inr frags"
      "items = [] \<longrightarrow> frags = [[]]"
      "items \<noteq> [] \<longrightarrow> (\<forall>c \<in> set frags. fits target_bytes c \<and> c \<noteq> [])" by blast
  have "\<forall>frag \<in> set frags.
          int (length (dumps (JArr frag))) \<le> target_bytes
          \<or> (\<exists>x. frag = [x] \<and> int (length (dumps x)) + 2 > target_bytes)
          \<or> (frag = [] \<and> items = [] \<and> target_bytes = 1)"
  proof (cases "items = []")
    case True
    with f(2) assms show ?thesis by auto
  next
    case False
    with f(3) fits_cases show ?thesis by blast
  qed
  with f(1)
  show "\<exists>frags. split_array_for_target_bytes items target_bytes = Inr frags \<and>
               (\<forall>frag \<in> set frags.
                  int (length (dumps (JArr frag))) \<le> target_bytes
                  \<or> (\<exists>x. frag = [x] \<and> int (length (dumps x)) + 2 > target_bytes)
                  \<or> (frag = [] \<and> items = [] \<and> target_bytes = 1))"
    by blast
next
  assume "\<not> list_all encodable items"
  then show "split_array_for_target_bytes items target_bytes = Inl UnicodeEncodeError"
    by (rule split_array_raises[OF assms])
qed

theorem split_array_byte_bound_witness:
  "(0::int) < 5
   \<and> list_all encodable [JInt 1, JInt 2, JInt 3]
   \<and> split_array_for_target_bytes [JInt 1, JInt 2, JInt 3] 5 = Inr [[JInt 1, JInt 2], [JInt 3]]
   \<and> int (length (dumps (JArr [JInt 1, JInt 2]))) \<le> 5
   \<and> int (length (dumps (JArr [JInt 3]))) \<le> 5
   \<and> \<not> list_all encodable [JStr [CHR 0xED, CHR 0xA0, CHR 0x80]]
   \<and> split_array_for_target_bytes [JStr [CHR 0xED, CHR 0xA0, CHR 0x80]] 5 = Inl UnicodeEncodeError"
proof -
  have e: "list_all encodable [JInt 1, JInt 2, JInt 3]" by code_simp
  have s: "split_array_for_target_bytes [JInt 1, JInt 2, JInt 3] 5 = Inr [[JInt 1, JInt 2], [JInt 3]]"
    by code_simp
  have n: "\<not> list_all encodable [JStr [CHR 0xED, CHR 0xA0, CHR 0x80]]" by code_simp
  have x: "\<not> 5 < int (length (dumps (JInt 1))) + 2" "\<not> 5 < int (length (dumps (JInt 3))) + 2"
    by code_simp+
  have "int (length (dumps (JArr [JInt 1, JInt 2]))) \<le> 5 \<and> int (length (dumps (JArr [JInt 3]))) \<le> 5"
    using split_array_byte_bound[of 5 "[JInt 1, JInt 2, JInt 3]"] e x
    by (simp only: s) simp
  moreover have "split_array_for_target_bytes [JStr [CHR 0xED, CHR 0xA0, CHR 0x80]] 5 = Inl UnicodeEncodeError"
    using split_array_byte_bound[of 5 "[JStr [CHR 0xED, CHR 0xA0, CHR 0x80]]"] n by simp
  ultimately show ?thesis using e s n by simp
qed

text \<open>
  C3 as stated fails: with a budget of 2 bytes the array \<^verbatim>\<open>[1]\<close> gives the single
  fragment \<^verbatim>\<open>[1]\<close> of 3 bytes, although its element serializes to 1 byte, which does
  not exceed the budget.
\<close>

theorem split_array_byte_bound_counterexample:
  "split_array_for_target_bytes [JInt 1] 2 = Inr [[JInt 1]]
   \<and> 2 < int (length (dumps (JArr [JInt 1])))
   \<and> int (length (dumps (JInt 1))) \<le> 2"
  by code_simp

subsection \<open>Span replacement\<close>

lemma chain_le: "chain pos rs n \<Longrightarrow> pos \<le> n"
proof (induction rs arbitrary: pos)
  case Nil
  then show ?case by simp
next
  case (Cons r rs)
  then have "r_end r \<le> n" by simp
  with Cons.prems show ?case by simp
qed

text \<open>
  Replacing from the highest span down never moves what lies before the span being
  replaced: after the spans of \<open>as\<close>, the document is the original up to \<open>pos\<close>
  followed by the spliced rest.
\<close>

lemma foldl_chain:
  "chain pos as (length html) \<Longrightarrow>
     foldl apply_one html (rev as) = take pos html @ splice_spans html pos as"
proof (induction as arbitrary: pos)
  case Nil
  then show ?case by simp
next
  case (Cons r as)
  let ?s = "r_start r" and ?e = "r_end r"
  from Cons.prems have ps: "pos \<le> ?s" and se: "?s \<le> ?e" and ch: "chain ?e as (length html)"
    by auto
  from chain_le[OF ch] have en: "?e \<le> length html" .
  have "foldl apply_one html (rev (r # as)) = apply_one (take ?e html @ splice_spans html ?e as) r"
    using Cons.IH[OF ch] by simp
  also have "\<dots> = take ?s html @ r_text r @ splice_spans html ?e as"
    using se en by (simp add: apply_one_def min_def)
  also have "take ?s html = take pos html @ py_slice html pos ?s"
  proof -
    have "take ?s html = take pos (take ?s html) @ drop pos (take ?s html)"
      by (simp only: append_take_drop_id)
    also have "take pos (take ?s html) = take pos html"
      using ps by (simp add: min_def)
    finally show ?thesis by (simp add: py_slice_def drop_take)
  qed
  finally show ?case by simp
qed

lemma non_overlapping_set:
  "non_overlapping rs \<Longrightarrow> distinct (map r_start rs) \<Longrightarrow> r \<in> set rs \<Longrightarrow> q \<in> set rs \<Longrightarrow>
     r_start r < r_start q \<Longrightarrow> disjoint_spans r q"
  by (induction rs) (auto simp: list_all_iff disjoint_spans_def)

lemma chain_sorted:
  assumes "sorted (map r_start as)" "distinct (map r_start as)"
    and "\<forall>r \<in> set as. within_text html r \<and> pos \<le> r_start r"
    and "\<forall>r \<in> set as. \<forall>q \<in> set as. r_start r < r_start q \<longrightarrow> r_end r \<le> r_start q"
    and "pos \<le> length html"
  shows "chain pos as (length html)"
  using assms
proof (induction as arbitrary: pos)
  case Nil
  then show ?case by simp
next
  case (Cons r as)
  have "chain (r_end r) as (length html)"
  proof (rule Cons.IH)
    show "\<forall>q \<in> set as. within_text html q \<and> r_end r \<le> r_start q"
    proof
      fix q assume q: "q \<in> set as"
      with Cons.prems(1,2) have "r_start r < r_start q"
        by (auto simp: le_less)
      with Cons.prems(3,4) q show "within_text html q \<and> r_end r \<le> r_start q" by auto
    qed
  qed (use Cons.prems in \<open>auto simp: within_text_def\<close>)
  with Cons.prems show ?case by (auto simp: within_text_def)
qed

lemma sorted_by_start_desc_descending:
  "sorted (rev (map r_start (sorted_by_start_desc rs)))"
proof -
  have "sorted (map (\<lambda>r. - int (r_start r)) (sorted_by_start_desc rs))"
    by (simp add: sorted_by_start_desc_def)
  then show ?thesis
    by (simp add: sorted_wrt_rev sorted_wrt_map sorted_map)
qed

lemma rev_sorted_desc:
  assumes "distinct (map r_start rs)"
  shows "rev (sorted_by_start_desc rs) = sort_key r_start rs"
proof (rule sym, rule sort_key_inj_key_eq)
  show "mset rs = mset (rev (sorted_by_start_desc rs))"
    by (simp add: sorted_by_start_desc_def)
  show "inj_on r_start (set rs)"
    using assms by (simp add: distinct_map)
  show "sorted (map r_start (rev (sorted_by_start_desc rs)))"
    using sorted_by_start_desc_descending[of rs] by (simp add: rev_map)
qed

text \<open>
  C9, as the code has it. For every document text and every list of replacements whose
  half-open spans lie within the text, do not overlap pairwise and start at pairwise
  different offsets (as non-empty spans that do not overlap always do),
  \<^verbatim>\<open>apply_replacements\<close> applies them in descending order of start offset and gives
  the simultaneous substitution of every span in the original document.
\<close>

theorem apply_replacements_simultaneous:
  assumes "list_all (within_text html) rs" and "non_overlapping rs"
    and "distinct (map r_start rs)"
  shows "apply_replacements html rs = substitute_spans html rs
         \<and> sorted (rev (map r_start (sorted_by_start_desc rs)))"
proof -
  let ?as = "sort_key r_start rs"
  have "chain 0 ?as (length html)"
  proof (rule chain_sorted)
    show "\<forall>r\<in>set ?as. \<forall>q\<in>set ?as. r_start r < r_start q \<longrightarrow> r_end r \<le> r_start q"
    proof (intro ballI impI)
      fix r q assume rq: "r \<in> set ?as" "q \<in> set ?as" "r_start r < r_start q"
      then have "disjoint_spans r q"
        using non_overlapping_set[OF assms(2,3), of r q] by simp
      moreover have "r_start q \<le> r_end q"
        using rq(2) assms(1) by (auto simp: list_all_iff within_text_def)
      ultimately show "r_end r \<le> r_start q"
        using rq(3) by (auto simp: disjoint_spans_def)
    qed
    show "distinct (map r_start ?as)"
      using assms(3) by (metis distinct_map distinct_sort set_sort)
  qed (use assms(1) in \<open>auto simp: list_all_iff\<close>)
  from foldl_chain[OF this] have "apply_replacements html rs = substitute_spans html rs"
    by (simp add: apply_replacements_def substitute_spans_def rev_sorted_desc[OF assms(3), symmetric])
  with sorted_by_start_desc_descending show ?thesis by simp
qed

theorem apply_replacements_simultaneous_witness:
  "list_all (within_text ''abcdef'')
     [\<lparr>r_start = 1, r_end = 2, r_text = ''XX''\<rparr>, \<lparr>r_start = 3, r_end = 5, r_text = ''Y''\<rparr>]
   \<and> non_overlapping
     [\<lparr>r_start = 1, r_end = 2, r_text = ''XX''\<rparr>, \<lparr>r_start = 3, r_end = 5, r_text = ''Y''\<rparr>]
   \<and> distinct (map r_start
     [\<lparr>r_start = 1, r_end = 2, r_text = ''XX''\<rparr>, \<lparr>r_start = 3, r_end = 5, r_text = ''Y''\<rparr>])
   \<and> apply_replacements ''abcdef''
     [\<lparr>r_start = 1, r_end = 2, r_text = ''XX''\<rparr>, \<lparr>r_start = 3, r_end = 5, r_text = ''Y''\<rparr>]
     = ''aXXcYf''
   \<and> substitute_spans ''abcdef''
     [\<lparr>r_start = 1, r_end = 2, r_text = ''XX''\<rparr>, \<lparr>r_start = 3, r_end = 5, r_text = ''Y''\<rparr>]
     = ''aXXcYf''"
  using apply_replacements_simultaneous[of "''abcdef''"
    "[\<lparr>r_start = 1, r_end = 2, r_text = ''XX''\<rparr>, \<lparr>r_start = 3, r_end = 5, r_text = ''Y''\<rparr>]"]
  by (simp add: within_text_def disjoint_spans_def substitute_spans_def py_slice_def)

text \<open>
  C9 as stated fails for an empty span that starts where another span starts: the spans
  \<open>[3, 3)\<close> and \<open>[3, 5)\<close> of \<^verbatim>\<open>abcdef\<close> do not overlap, the simultaneous substitution
  of \<^verbatim>\<open>X\<close> and \<^verbatim>\<open>Y\<close> is \<^verbatim>\<open>abcXYf\<close>, and \<^verbatim>\<open>apply_replacements\<close> returns
  \<^verbatim>\<open>abcYef\<close>.
\<close>

theorem apply_replacements_empty_span_counterexample:
  "list_all (within_text ''abcdef'')
     [\<lparr>r_start = 3, r_end = 3, r_text = ''X''\<rparr>, \<lparr>r_start = 3, r_end = 5, r_text = ''Y''\<rparr>]
   \<and> non_overlapping
     [\<lparr>r_start = 3, r_end = 3, r_text = ''X''\<rparr>, \<lparr>r_start = 3, r_end = 5, r_text = ''Y''\<rparr>]
   \<and> apply_replacements ''abcdef''
     [\<lparr>r_start = 3, r_end = 3, r_text = ''X''\<rparr>, \<lparr>r_start = 3, r_end = 5, r_text = ''Y''\<rparr>]
     = ''abcYef''
   \<and> substitute_spans ''abcdef''
     [\<lparr>r_start = 3, r_end = 3, r_text = ''X''\<rparr>, \<lparr>r_start = 3, r_end = 5, r_text = ''Y''\<rparr>]
     = ''abcXYf''"
  by (simp add: within_text_def disjoint_spans_def substitute_spans_def py_slice_def
        apply_replacements_def sorted_by_start_desc_def apply_one_def)

subsection \<open>Mode selection and errors of the run\<close>

lemma effects_after_backup:
  "effects (after_backup a w) =
     effects w @ [Mkdir (arg_outdir a), ReadText (arg_input a),
              Mkdir (arg_outdir a @ [''_backups'']),
              Copy2 (arg_input a) (arg_outdir a @ [''_backups''] @ [arg_slug a @ ''.original.html''])]"
  by (simp add: after_backup_def make_backup_copy_def read_text_def mkdir_def copy2_def Let_def
           split: option.splits)

text \<open>The run from its mode switch on, once the input is ready.\<close>

lemma run_ready:
  assumes "input_ready a w html"
  shows "run lib a w =
     (if arg_mode a = Single then
        returning SingleFile (copy_single (arg_input a) (arg_outdir a) (arg_slug a) (after_backup a w))
      else if detected lib html = [] then (Inl (RuntimeError no_payload_message), after_backup a w)
      else if arg_mode a = Auto \<and> total_payload (detected lib html) \<le> threshold_bytes a then
        returning SingleFile (copy_single (arg_input a) (arg_outdir a) (arg_slug a) (after_backup a w))
      else
        returning DirectoryPackage
          (externalize_to_directory lib html (detected lib html) (arg_outdir a) (arg_slug a)
             (arg_chunk_mb a) (after_backup a w)))"
proof -
  from assms have v: "validate_slug (arg_slug a) = Inr ()"
    and f: "files w (arg_input a) = Some html" and d: "decode_utf8 html = Inr html"
    by (simp_all add: input_ready_def)
  have rt: "read_text (arg_input a) (mkdir (arg_outdir a) w)
              = (Inr html, snd (read_text (arg_input a) (mkdir (arg_outdir a) w)))"
    using f d by (simp add: read_text_def mkdir_def Let_def)
  have mb: "make_backup_copy (arg_input a) (arg_outdir a) (arg_slug a)
              (snd (read_text (arg_input a) (mkdir (arg_outdir a) w)))
            = (arg_outdir a @ [''_backups''] @ [arg_slug a @ ''.original.html''], after_backup a w)"
    by (simp add: after_backup_def make_backup_copy_def Let_def)
  have ex: "path_exists w (arg_input a)" "is_file w (arg_input a)"
    using f by (simp_all add: path_exists_def is_file_def)
  show ?thesis
    unfolding run_def v
    apply (simp only: sum.case Let_def ex not_True_eq_False if_False)
    apply (subst rt)
    apply (simp only: prod.case sum.case)
    apply (subst mb)
    apply (simp only: prod.case detected_def total_payload_def threshold_bytes_def)
    done
qed

text \<open>Facts about the example inputs.\<close>

lemma example_args_sel:
  "arg_input (example_args m t c) = [''in.html'']"
  "arg_outdir (example_args m t c) = [''out'']"
  "arg_slug (example_args m t c) = ''v''"
  "arg_mode (example_args m t c) = m"
  "arg_chunk_mb (example_args m t c) = c"
  by (simp_all add: example_args_def)

lemma example_threshold: "threshold_bytes (example_args m t c) = t"
  by (simp add: threshold_bytes_def example_args_def py_int_def)

lemma example_ready:
  "input_ready (example_args m t c) (world_with [''in.html''] doc_plain) doc_plain"
  "input_ready (example_args m t c) (world_with [''in.html''] doc_assignment) doc_assignment"
  by (simp_all add: input_ready_def example_args_def world_with_def validate_slug_def
        is_slug_char_def is_alpha_def is_digit_def decode_utf8_def doc_plain_def
        doc_assignment_def)

lemma example_detected:
  "detected example_lib doc_plain = []"
  "map payload_bytes (detected example_lib doc_assignment) = [3]"
  by code_simp+

lemma example_total:
  "total_payload (detected example_lib doc_plain) = 0"
  "total_payload (detected example_lib doc_assignment) = 3"
  by (simp_all add: total_payload_def example_detected)

lemma example_nonempty: "detected example_lib doc_assignment \<noteq> []"
  using example_detected(2) by auto

lemma example_effects:
  "effects (after_backup (example_args m t c) (world_with [''in.html''] html))
     = [Mkdir [''out''], ReadText [''in.html''], Mkdir [''out'', ''_backups''],
        Copy2 [''in.html''] [''out'', ''_backups'', ''v.original.html'']]"
  by (simp add: effects_after_backup example_args_sel world_with_def)

lemma example_single:
  "fst (returning SingleFile (copy_single [''in.html''] [''out''] ''v'' w))
     = Inr (SingleFile [''out'', ''v.html''])"
  by (simp add: returning_def copy_single_def Let_def)

lemma example_directory:
  "fst (returning DirectoryPackage
          (externalize_to_directory example_lib doc_assignment (detected example_lib doc_assignment)
             [''out''] ''v'' 50 (after_backup a (world_with [''in.html''] doc_assignment))))
     = Inr (DirectoryPackage
              \<lparr>viewer_dir = [''out'', ''v''], index_path = [''out'', ''v'', ''index.html''],
               manifest_path = [''out'', ''v'', ''manifest.json''], chunks_written = 1\<rparr>)"
  by code_simp

text \<open>
  C5, as the code has it. For every input document in which detection finds zero
  candidates, the run is fatal in auto mode as well as in directory mode: \<^verbatim>\<open>run\<close>
  raises its \<^verbatim>\<open>RuntimeError\<close> right after detection, before the payload is compared
  with the threshold, having made the output directory and the backup copy and nothing
  else. In single mode detection does not run and the input is copied. Called with no
  candidates, \<^verbatim>\<open>externalize_to_directory\<close> raises too, before any effect.
\<close>

theorem zero_candidates_fatal_unless_single:
  assumes "input_ready a w html" and "detected lib html = []"
  shows "(arg_mode a \<noteq> Single \<longrightarrow>
            run lib a w = (Inl (RuntimeError no_payload_message), after_backup a w))
         \<and> (arg_mode a = Single \<longrightarrow>
            run lib a w = returning SingleFile
              (copy_single (arg_input a) (arg_outdir a) (arg_slug a) (after_backup a w)))
         \<and> externalize_to_directory lib html [] outdir slug chunk_mb w'
             = (Inl (RuntimeError ''No externalizable payload candidates were found.''), w')"
  using assms by (simp add: run_ready externalize_to_directory_def)

theorem zero_candidates_fatal_unless_single_witness:
  "input_ready (example_args Directory 83886080 50) (world_with [''in.html''] doc_plain) doc_plain
   \<and> detected example_lib doc_plain = []
   \<and> fst (run example_lib (example_args Directory 83886080 50) (world_with [''in.html''] doc_plain))
       = Inl (RuntimeError no_payload_message)
   \<and> effects (snd (run example_lib (example_args Directory 83886080 50)
                  (world_with [''in.html''] doc_plain)))
       = [Mkdir [''out''], ReadText [''in.html''], Mkdir [''out'', ''_backups''],
          Copy2 [''in.html''] [''out'', ''_backups'', ''v.original.html'']]
   \<and> fst (run example_lib (example_args Single 83886080 50) (world_with [''in.html''] doc_plain))
       = Inr (SingleFile [''out'', ''v.html''])"
proof -
  let ?w = "world_with [''in.html''] doc_plain"
  note r = example_ready(1) and d = example_detected(1)
  from zero_candidates_fatal_unless_single[OF r d, of Directory 83886080 50]
  have dir: "run example_lib (example_args Directory 83886080 50) ?w
          = (Inl (RuntimeError no_payload_message), after_backup (example_args Directory 83886080 50) ?w)"
    by (simp add: example_args_sel)
  from zero_candidates_fatal_unless_single[OF r d, of Single 83886080 50]
  have "run example_lib (example_args Single 83886080 50) ?w
          = returning SingleFile (copy_single [''in.html''] [''out''] ''v''
              (after_backup (example_args Single 83886080 50) ?w))"
    by (simp add: example_args_sel)
  then have single: "fst (run example_lib (example_args Single 83886080 50) ?w)
          = Inr (SingleFile [''out'', ''v.html''])"
    by (simp only: example_single)
  show ?thesis
    using r d single by (simp add: dir example_effects)
qed

text \<open>
  C5 as stated fails: in auto mode, on a document without candidates and with the
  default threshold of 80 MB, the payload of 0 bytes is under the threshold and yet the
  run ends in the \<^verbatim>\<open>RuntimeError\<close> instead of copying the file.
\<close>

theorem zero_candidates_auto_counterexample:
  "detected example_lib doc_plain = []
   \<and> total_payload (detected example_lib doc_plain)
       \<le> threshold_bytes (example_args Auto 83886080 50)
   \<and> fst (run example_lib (example_args Auto 83886080 50) (world_with [''in.html''] doc_plain))
       = Inl (RuntimeError no_payload_message)"
proof -
  have "run example_lib (example_args Auto 83886080 50) (world_with [''in.html''] doc_plain)
      = (Inl (RuntimeError no_payload_message),
         after_backup (example_args Auto 83886080 50) (world_with [''in.html''] doc_plain))"
    by (subst run_ready[OF example_ready(1)]) (simp add: example_detected example_args_sel)
  then show ?thesis
    by (simp add: example_detected total_payload_def example_threshold)
qed
text \<open>
  C7, as the code has it. For every non-empty candidate set under auto mode: when the
  total payload equals the threshold in bytes, the run goes on as \<^verbatim>\<open>copy_single\<close>
  (single-file copy); when the total is one byte over, it goes on as
  \<^verbatim>\<open>externalize_to_directory\<close>.
\<close>

theorem auto_threshold_boundary:
  assumes "input_ready a w html" and "arg_mode a = Auto" and "detected lib html \<noteq> []"
  shows "(total_payload (detected lib html) = threshold_bytes a \<longrightarrow>
            run lib a w = returning SingleFile
              (copy_single (arg_input a) (arg_outdir a) (arg_slug a) (after_backup a w)))
         \<and> (total_payload (detected lib html) = threshold_bytes a + 1 \<longrightarrow>
            run lib a w = returning DirectoryPackage
              (externalize_to_directory lib html (detected lib html) (arg_outdir a) (arg_slug a)
                 (arg_chunk_mb a) (after_backup a w)))"
  using assms by (simp add: run_ready)

theorem auto_threshold_boundary_witness:
  "input_ready (example_args Auto 3 50) (world_with [''in.html''] doc_assignment) doc_assignment
   \<and> total_payload (detected example_lib doc_assignment) = threshold_bytes (example_args Auto 3 50)
   \<and> fst (run example_lib (example_args Auto 3 50) (world_with [''in.html''] doc_assignment))
       = Inr (SingleFile [''out'', ''v.html''])
   \<and> total_payload (detected example_lib doc_assignment)
       = threshold_bytes (example_args Auto 2 50) + 1
   \<and> fst (run example_lib (example_args Auto 2 50) (world_with [''in.html''] doc_assignment))
       = Inr (DirectoryPackage
                \<lparr>viewer_dir = [''out'', ''v''], index_path = [''out'', ''v'', ''index.html''],
                 manifest_path = [''out'', ''v'', ''manifest.json''], chunks_written = 1\<rparr>)"
proof -
  let ?w = "world_with [''in.html''] doc_assignment"
  have t3: "total_payload (detected example_lib doc_assignment) = threshold_bytes (example_args Auto 3 50)"
    and t2: "total_payload (detected example_lib doc_assignment) = threshold_bytes (example_args Auto 2 50) + 1"
    by (simp_all add: example_total example_threshold)
  from auto_threshold_boundary[OF example_ready(2) example_args_sel(4) example_nonempty, of 3 50] t3
  have "run example_lib (example_args Auto 3 50) ?w
      = returning SingleFile (copy_single [''in.html''] [''out''] ''v''
          (after_backup (example_args Auto 3 50) ?w))"
    by (simp add: example_args_sel)
  then have single: "fst (run example_lib (example_args Auto 3 50) ?w)
      = Inr (SingleFile [''out'', ''v.html''])"
    by (simp only: example_single)
  from auto_threshold_boundary[OF example_ready(2) example_args_sel(4) example_nonempty, of 2 50] t2
  have "run example_lib (example_args Auto 2 50) ?w
      = returning DirectoryPackage
          (externalize_to_directory example_lib doc_assignment (detected example_lib doc_assignment)
             [''out''] ''v'' 50 (after_backup (example_args Auto 2 50) ?w))"
    by (simp add: example_args_sel)
  then have directory: "fst (run example_lib (example_args Auto 2 50) ?w)
      = Inr (DirectoryPackage
                \<lparr>viewer_dir = [''out'', ''v''], index_path = [''out'', ''v'', ''index.html''],
                 manifest_path = [''out'', ''v'', ''manifest.json''], chunks_written = 1\<rparr>)"
    by (simp only: example_directory)
  from example_ready(2) t3 single t2 directory show ?thesis by blast
qed

text \<open>
  C7 as stated fails for the empty candidate set: in auto mode with a threshold of 0, a
  document without candidates has a total payload of 0 bytes, exactly the threshold, and
  the run ends in the \<^verbatim>\<open>RuntimeError\<close> instead of selecting single-file copy.
\<close>

theorem auto_threshold_empty_counterexample:
  "total_payload (detected example_lib doc_plain) = threshold_bytes (example_args Auto 0 50)
   \<and> fst (run example_lib (example_args Auto 0 50) (world_with [''in.html''] doc_plain))
       = Inl (RuntimeError no_payload_message)"
proof -
  have "run example_lib (example_args Auto 0 50) (world_with [''in.html''] doc_plain)
      = (Inl (RuntimeError no_payload_message),
         after_backup (example_args Auto 0 50) (world_with [''in.html''] doc_plain))"
    by (subst run_ready[OF example_ready(1)]) (simp add: example_detected example_args_sel)
  then show ?thesis
    by (simp add: example_total example_threshold)
qed



subsection \<open>Scanning for assignments\<close>

text \<open>
  C4, as the code has it. For every script body, when an assignment anchor is matched
  (beyond what was consumed) but the text after it does not begin with \<^verbatim>\<open>{\<close> or
  \<^verbatim>\<open>[\<close>, or does not decode, the match is discarded and scanning resumes at the end of
  the failed match, which lies strictly after its start: the candidates and
  \<^verbatim>\<open>consumed_until\<close> stay as they are and the loop goes on from \<^verbatim>\<open>match.end()\<close>. The
  scan position grows with every iteration, so the scan terminates
  (\<open>detect_assignment_loop\<close> is a total function, by the termination proof at its
  definition).
\<close>

theorem failed_match_resumes_at_match_end:
  assumes "assignment_search script_body scan_pos = Some m"
    and "consumed_until \<le> m_start m"
    and "length script_body \<le> skip_whitespace script_body (m_end m)
         \<or> script_body ! skip_whitespace script_body (m_end m) \<notin> set ''[{''
         \<or> raw_decode (drop (skip_whitespace script_body (m_end m)) script_body) = None"
  shows "scan_match raw_decode script_body base_offset consumed_until candidates m
           = (m_end m, consumed_until, candidates)
         \<and> detect_assignment_loop raw_decode script_body base_offset scan_pos consumed_until
             candidates
           = detect_assignment_loop raw_decode script_body base_offset (m_end m) consumed_until
               candidates
         \<and> scan_pos \<le> m_start m \<and> m_start m < m_end m \<and> m_end m \<le> length script_body"
proof -
  have step: "scan_match raw_decode script_body base_offset consumed_until candidates m
                = (m_end m, consumed_until, candidates)"
    using assms(2,3) by (auto simp: scan_match_def Let_def)
  have "detect_assignment_loop raw_decode script_body base_offset scan_pos consumed_until candidates
      = detect_assignment_loop raw_decode script_body base_offset (m_end m) consumed_until
          candidates"
    by (subst detect_assignment_loop.simps) (simp add: assms(1) step)
  with step assignment_search_bounds[OF assms(1)] show ?thesis by simp
qed

theorem failed_match_resumes_at_match_end_witness:
  "assignment_search ''var x = {oops'' 0
     = Some \<lparr>m_start = 0, m_end = 8, m_decl_kind = Some ''var'', m_decl_name = Some ''x'',
             m_window_name = None\<rparr>
   \<and> json_raw_decode example_lib (drop (skip_whitespace ''var x = {oops'' 8) ''var x = {oops'') = None
   \<and> scan_match (json_raw_decode example_lib) ''var x = {oops'' 0 0 []
        \<lparr>m_start = 0, m_end = 8, m_decl_kind = Some ''var'', m_decl_name = Some ''x'',
         m_window_name = None\<rparr>
       = (8, 0, [])
   \<and> detect_assignment_loop (json_raw_decode example_lib) ''var x = {oops'' 0 0 0 []
       = detect_assignment_loop (json_raw_decode example_lib) ''var x = {oops'' 0 8 0 []"
proof -
  let ?m = "\<lparr>m_start = 0, m_end = 8, m_decl_kind = Some ''var'', m_decl_name = Some ''x'',
             m_window_name = None\<rparr>"
  have s: "assignment_search ''var x = {oops'' 0 = Some ?m"
    by code_simp
  have d: "json_raw_decode example_lib (drop (skip_whitespace ''var x = {oops'' 8) ''var x = {oops'')
             = None"
    by code_simp
  from failed_match_resumes_at_match_end[OF s, of 0 "json_raw_decode example_lib" 0 "[]"] d
  have "scan_match (json_raw_decode example_lib) ''var x = {oops'' 0 0 [] ?m = (8, 0, [])
        \<and> detect_assignment_loop (json_raw_decode example_lib) ''var x = {oops'' 0 0 0 []
            = detect_assignment_loop (json_raw_decode example_lib) ''var x = {oops'' 0 8 0 []"
    by simp
  with s d show ?thesis by blast
qed

text \<open>
  C4 as stated fails: in the body \<^verbatim>\<open>var x = {oops\<close> the anchor \<^verbatim>\<open>var x = \<close> matches from
  offset 0 to offset 8, the text after it does not decode, and scanning resumes at
  offset 8, the end of the match, not before it.
\<close>

theorem failed_match_resume_counterexample:
  "assignment_search ''var x = {oops'' 0
     = Some \<lparr>m_start = 0, m_end = 8, m_decl_kind = Some ''var'', m_decl_name = Some ''x'',
             m_window_name = None\<rparr>
   \<and> json_raw_decode example_lib (drop 8 ''var x = {oops'') = None
   \<and> fst (scan_match (json_raw_decode example_lib) ''var x = {oops'' 0 0 []
            \<lparr>m_start = 0, m_end = 8, m_decl_kind = Some ''var'', m_decl_name = Some ''x'',
             m_window_name = None\<rparr>) = 8"
  by code_simp

subsection \<open>Synthesized script ids\<close>

text \<open>
  C8 at the failing input. The first element carries \<^verbatim>\<open>id=""\<close>: \<^verbatim>\<open>existing_id or ...\<close>
  gives it the synthesized id \<^verbatim>\<open>karospace_data_000\<close>, but the counter advances only
  when \<^verbatim>\<open>existing_id is None\<close>, so the second element, which has no id, receives
  \<^verbatim>\<open>karospace_data_000\<close> as well.
\<close>

theorem empty_id_repeats_synthesized_id:
  "map script_id (detect_candidates (json_loads example_lib) (json_raw_decode example_lib) doc_empty_id)
     = [Some ''karospace_data_000'', Some ''karospace_data_000'']
   \<and> map script_had_id
         (detect_candidates (json_loads example_lib) (json_raw_decode example_lib) doc_empty_id)
     = [True, False]"
  by code_simp

subsection \<open>Text concatenation\<close>

text \<open>
  C2 at the failing input. The JSON string of the one character U+00E9 (e with acute
  accent) serializes to the four bytes \<^verbatim>\<open>22 C3 A9 22\<close>. With a budget of 1 byte the
  second piece backs off to nothing, is forced to the single byte \<^verbatim>\<open>C3\<close>, half of the
  code point, and decoding it raises \<^verbatim>\<open>UnicodeDecodeError\<close>: no pieces are returned. With
  a budget of 2 bytes the same text is cut at code point boundaries.
\<close>

theorem split_utf8_budget_below_code_point:
  "dumps (JStr [CHR 0xC3, CHR 0xA9]) = [CHR 0x22, CHR 0xC3, CHR 0xA9, CHR 0x22]
   \<and> split_utf8_text_by_bytes (dumps (JStr [CHR 0xC3, CHR 0xA9])) 1 = Inl UnicodeDecodeError
   \<and> split_utf8_text_by_bytes (dumps (JStr [CHR 0xC3, CHR 0xA9])) 2
       = Inr [[CHR 0x22], [CHR 0xC3, CHR 0xA9], [CHR 0x22]]"
  by code_simp

subsection \<open>Chunk files and manifest entries\<close>

lemma digit_char_val: "d < 10 \<Longrightarrow> of_char (digit_char d) - 48 = d"
proof -
  assume "d < 10"
  then consider "d = 0" | "d = 1" | "d = 2" | "d = 3" | "d = 4" | "d = 5" | "d = 6" | "d = 7"
    | "d = 8" | "d = 9"
    by atomize_elim arith
  then show ?thesis by cases (simp_all add: digit_char_def)
qed

lemma digit_char_is_digit: "d < 10 \<Longrightarrow> is_digit (digit_char d)"
proof -
  assume "d < 10"
  then consider "d = 0" | "d = 1" | "d = 2" | "d = 3" | "d = 4" | "d = 5" | "d = 6" | "d = 7"
    | "d = 8" | "d = 9"
    by atomize_elim arith
  then show ?thesis by cases (simp_all add: digit_char_def is_digit_def)
qed

lemma dec_val_snoc: "dec_val (s @ [c]) = 10 * dec_val s + (of_char c - 48)"
  by (simp add: dec_val_def)

lemma dec_val_str_nat: "dec_val (str_nat n) = n"
proof (induction n rule: str_nat.induct)
  case (1 n)
  show ?case
  proof (cases "n < 10")
    case True
    then show ?thesis
      by (subst str_nat.simps) (simp add: dec_val_def digit_char_val)
  next
    case False
    with 1 have "dec_val (str_nat (n div 10)) = n div 10" by simp
    with False show ?thesis
      by (subst str_nat.simps) (simp add: dec_val_snoc digit_char_val)
  qed
qed

lemma str_nat_digits: "list_all is_digit (str_nat n)"
proof (induction n rule: str_nat.induct)
  case (1 n)
  show ?case
  proof (cases "n < 10")
    case True
    then show ?thesis
      by (subst str_nat.simps) (simp add: digit_char_is_digit)
  next
    case False
    with 1 have "list_all is_digit (str_nat (n div 10))" by simp
    with False show ?thesis
      by (subst str_nat.simps) (simp add: digit_char_is_digit)
  qed
qed

lemma dec_val_zeros: "dec_val (replicate k CHR ''0'' @ s) = dec_val s"
proof -
  have "foldl (\<lambda>n c. 10 * n + (of_char c - 48)) 0 (replicate k CHR ''0'') = (0::nat)"
    by (induction k) simp_all
  then show ?thesis by (simp add: dec_val_def)
qed

lemma dec_val_pad3: "dec_val (pad3 n) = n"
  by (simp add: pad3_def dec_val_zeros dec_val_str_nat)

lemma pad3_digits: "list_all is_digit (pad3 n)"
proof -
  have "is_digit CHR ''0''" by (simp add: is_digit_def)
  with str_nat_digits[of n] show ?thesis by (auto simp: pad3_def list_all_iff)
qed

text \<open>The number of a chunk file can be read back from its name.\<close>

lemma chunk_file_number:
  assumes "ext = ''.json'' \<or> ext = ''.txt''"
  shows "dec_val (takeWhile is_digit (drop 6 (chunk_file k ext))) = k"
proof -
  have "takeWhile is_digit (pad3 k @ ext) = pad3 k"
    using assms pad3_digits[of k]
    by (auto simp: takeWhile_append2 list_all_iff is_digit_def)
  then show ?thesis by (simp add: chunk_file_def dec_val_pad3)
qed

lemma chunk_file_inj:
  assumes "chunk_file k ext = chunk_file k' ext'"
    and "ext = ''.json'' \<or> ext = ''.txt''" and "ext' = ''.json'' \<or> ext' = ''.txt''"
  shows "k = k'"
  using chunk_file_number[OF assms(2), of k] chunk_file_number[OF assms(3), of k'] assms(1)
  by simp

text \<open>Writing one chunk file leaves the entries of the other chunk files as they are.\<close>

lemma entry_at_frame:
  assumes "entry_at d w k e"
    and "\<And>ext. ext = ''.json'' \<or> ext = ''.txt'' \<Longrightarrow>
           files w' (d @ [chunk_file k ext]) = files w (d @ [chunk_file k ext])"
  shows "entry_at d w' k e"
  using assms unfolding entry_at_def by metis

lemma write_text_other:
  assumes "k \<noteq> c" and "ext = ''.json'' \<or> ext = ''.txt''" and "ext' = ''.json'' \<or> ext' = ''.txt''"
  shows "files (write_text (d @ [chunk_file c ext']) t w) (d @ [chunk_file k ext])
           = files w (d @ [chunk_file k ext])"
proof -
  have "chunk_file c ext' \<noteq> chunk_file k ext"
    using chunk_file_inj[of c ext' k ext] assms by auto
  then show ?thesis by (simp add: write_text_def)
qed

lemma write_array_loop_entries:
  assumes "write_array_loop d slices entries c w = (entries', c', w')"
    and "\<forall>e \<in> set entries. \<exists>k<c. entry_at d w k e"
  shows "(\<forall>e \<in> set entries'. \<exists>k<c'. entry_at d w' k e) \<and> c \<le> c'
         \<and> (\<forall>k<c. \<forall>ext. ext = ''.json'' \<or> ext = ''.txt'' \<longrightarrow>
                files w' (d @ [chunk_file k ext]) = files w (d @ [chunk_file k ext]))"
  using assms
proof (induction slices arbitrary: entries c w)
  case Nil
  then show ?case by simp
next
  case (Cons arr slices)
  let ?name = "chunk_file c ''.json''"
  let ?text = "dumps (JArr arr)"
  let ?w1 = "write_text (d @ [?name]) ?text w"
  let ?e0 = "\<lparr>ce_path = ''data/'' @ ?name, ce_bytes = length ?text,
              ce_items = Some (length arr), ce_format = ''json_array''\<rparr>"
  from Cons.prems(1) have loop:
    "write_array_loop d slices (entries @ [?e0]) (c + 1) ?w1 = (entries', c', w')"
    by (simp add: Let_def chunk_file_def)
  have old: "\<exists>k<c + 1. entry_at d ?w1 k e" if "e \<in> set entries" for e
  proof -
    from Cons.prems(2) that obtain k where k: "k < c" "entry_at d w k e" by blast
    have "entry_at d ?w1 k e"
      by (rule entry_at_frame[OF k(2)]) (use k(1) in \<open>simp add: write_text_other\<close>)
    with k(1) show ?thesis by (intro exI[of _ k]) simp
  qed
  have new: "entry_at d ?w1 c ?e0"
  proof -
    have a: "\<exists>arr'. ?text = dumps (JArr arr') \<and> ce_items ?e0 = Some (length arr')"
      by (intro exI[of _ arr]) simp
    have b: "files ?w1 (d @ [?name]) = Some ?text"
      by (simp add: write_text_def)
    show ?thesis
      unfolding entry_at_def
      by (rule exI[of _ "''.json''"], rule exI[of _ ?text]) (use a b in simp)
  qed
  have "\<forall>e \<in> set (entries @ [?e0]). \<exists>k<c + 1. entry_at d ?w1 k e"
    using old new by auto
  from Cons.IH[OF loop this]
  have ih: "\<forall>e \<in> set entries'. \<exists>k<c'. entry_at d w' k e" "c + 1 \<le> c'"
    "\<forall>k<c + 1. \<forall>ext. ext = ''.json'' \<or> ext = ''.txt'' \<longrightarrow>
        files w' (d @ [chunk_file k ext]) = files ?w1 (d @ [chunk_file k ext])"
    by simp_all
  have "files w' (d @ [chunk_file k ext]) = files w (d @ [chunk_file k ext])"
    if "k < c" "ext = ''.json'' \<or> ext = ''.txt''" for k ext
  proof -
    from that(1) have "k < c + 1" by simp
    with ih(3) that(2) have "files w' (d @ [chunk_file k ext]) = files ?w1 (d @ [chunk_file k ext])"
      by blast
    also have "\<dots> = files w (d @ [chunk_file k ext])"
      using that by (simp add: write_text_other)
    finally show ?thesis .
  qed
  with ih(1,2) show ?case by auto
qed

lemma write_text_loop_entries:
  assumes "write_text_loop d parts entries c w = (entries', c', w')"
    and "\<forall>e \<in> set entries. \<exists>k<c. entry_at d w k e"
  shows "(\<forall>e \<in> set entries'. \<exists>k<c'. entry_at d w' k e) \<and> c \<le> c'
         \<and> (\<forall>k<c. \<forall>ext. ext = ''.json'' \<or> ext = ''.txt'' \<longrightarrow>
                files w' (d @ [chunk_file k ext]) = files w (d @ [chunk_file k ext]))"
  using assms
proof (induction parts arbitrary: entries c w)
  case Nil
  then show ?case by simp
next
  case (Cons part parts)
  let ?name = "chunk_file c ''.txt''"
  let ?w1 = "write_text (d @ [?name]) part w"
  let ?e0 = "\<lparr>ce_path = ''data/'' @ ?name, ce_bytes = length part,
              ce_items = None, ce_format = ''json_text_piece''\<rparr>"
  from Cons.prems(1) have loop:
    "write_text_loop d parts (entries @ [?e0]) (c + 1) ?w1 = (entries', c', w')"
    by (simp add: Let_def chunk_file_def)
  have old: "\<exists>k<c + 1. entry_at d ?w1 k e" if "e \<in> set entries" for e
  proof -
    from Cons.prems(2) that obtain k where k: "k < c" "entry_at d w k e" by blast
    have "entry_at d ?w1 k e"
      by (rule entry_at_frame[OF k(2)]) (use k(1) in \<open>simp add: write_text_other\<close>)
    with k(1) show ?thesis by (intro exI[of _ k]) simp
  qed
  have new: "entry_at d ?w1 c ?e0"
  proof -
    have b: "files ?w1 (d @ [?name]) = Some part"
      by (simp add: write_text_def)
    show ?thesis
      unfolding entry_at_def
      by (rule exI[of _ "''.txt''"], rule exI[of _ part]) (use b in simp)
  qed
  have "\<forall>e \<in> set (entries @ [?e0]). \<exists>k<c + 1. entry_at d ?w1 k e"
    using old new by auto
  from Cons.IH[OF loop this]
  have ih: "\<forall>e \<in> set entries'. \<exists>k<c'. entry_at d w' k e" "c + 1 \<le> c'"
    "\<forall>k<c + 1. \<forall>ext. ext = ''.json'' \<or> ext = ''.txt'' \<longrightarrow>
        files w' (d @ [chunk_file k ext]) = files ?w1 (d @ [chunk_file k ext])"
    by simp_all
  have "files w' (d @ [chunk_file k ext]) = files w (d @ [chunk_file k ext])"
    if "k < c" "ext = ''.json'' \<or> ext = ''.txt''" for k ext
  proof -
    from that(1) have "k < c + 1" by simp
    with ih(3) that(2) have "files w' (d @ [chunk_file k ext]) = files ?w1 (d @ [chunk_file k ext])"
      by blast
    also have "\<dots> = files w (d @ [chunk_file k ext])"
      using that by (simp add: write_text_other)
    finally show ?thesis .
  qed
  with ih(1,2) show ?case by auto
qed

lemma write_chunks_entries:
  assumes "write_chunks val d b c w = Inr ((entries, c', strategy), w')"
  shows "(\<forall>e \<in> set entries. \<exists>k<c'. entry_at d w' k e) \<and> c \<le> c'
         \<and> (\<forall>k<c. \<forall>ext. ext = ''.json'' \<or> ext = ''.txt'' \<longrightarrow>
                files w' (d @ [chunk_file k ext]) = files w (d @ [chunk_file k ext]))"
proof (cases "\<exists>items. val = JArr items")
  case True
  then obtain items where val: "val = JArr items" by blast
  with assms obtain slices where
    "write_array_loop d slices [] c w = (entries, c', w')"
    by (auto simp: write_chunks_def write_array_chunks_def split: sum.splits prod.splits)
  from write_array_loop_entries[OF this] show ?thesis by simp
next
  case False
  with assms have "write_text_chunks val d b c w = Inr ((entries, c', strategy), w')"
    by (cases val) (simp_all add: write_chunks_def)
  then obtain pieces where
    "write_text_loop d pieces [] c w = (entries, c', w')"
    by (auto simp: write_text_chunks_def Let_def split: sum.splits prod.splits)
  from write_text_loop_entries[OF this] show ?thesis by simp
qed

lemma entry_at_consistent:
  assumes "entry_at d w k e" shows "entry_consistent d w e"
  using assms unfolding entry_at_def entry_consistent_def by blast

lemma externalize_loop_entries:
  assumes "externalize_loop ds d b cands idx c blobs repls w = (Inr (blobs', repls', c'), w')"
    and "\<forall>blob \<in> set blobs. \<forall>e \<in> set (be_chunks blob). \<exists>k<c. entry_at d w k e"
  shows "\<forall>blob \<in> set blobs'. \<forall>e \<in> set (be_chunks blob). \<exists>k<c'. entry_at d w' k e"
  using assms
proof (induction cands arbitrary: idx c blobs repls w)
  case Nil
  then show ?case by simp
next
  case (Cons cand cands)
  from Cons.prems(1) obtain entries c1 strategy w1 where
    wc: "write_chunks (c_value cand) d b c w = Inr ((entries, c1, strategy), w1)"
    by (auto simp: Let_def split: sum.splits prod.splits)
  with Cons.prems(1) obtain rtext where
    rt: "replacement_for_candidate ds cand (''blob_'' @ pad3 idx) = Inr rtext"
    by (auto simp: Let_def split: sum.splits prod.splits)
  let ?blob = "\<lparr>be_key = ''blob_'' @ pad3 idx, be_detector = detector cand,
                be_payload_bytes = payload_bytes cand, be_strategy = strategy,
                be_chunks = entries, be_script_id = script_id cand,
                be_assignment_style = assignment_style cand,
                be_variable_name = variable_name cand, be_decl_kind = decl_kind cand\<rparr>"
  let ?repl = "\<lparr>r_start = c_start cand, r_end = c_end cand, r_text = rtext\<rparr>"
  from Cons.prems(1) wc rt have loop:
    "externalize_loop ds d b cands (idx + 1) c1 (blobs @ [?blob]) (repls @ [?repl]) w1
       = (Inr (blobs', repls', c'), w')"
    by (simp add: Let_def)
  note wce = write_chunks_entries[OF wc]
  have "\<exists>k<c1. entry_at d w1 k e" if "blob \<in> set blobs" "e \<in> set (be_chunks blob)" for blob e
  proof -
    from Cons.prems(2) that obtain k where k: "k < c" "entry_at d w k e" by blast
    have "entry_at d w1 k e"
      by (rule entry_at_frame[OF k(2)]) (use wce k(1) in blast)
    with k(1) wce show ?thesis by (intro exI[of _ k]) simp
  qed
  with wce have "\<forall>blob \<in> set (blobs @ [?blob]). \<forall>e \<in> set (be_chunks blob). \<exists>k<c1. entry_at d w1 k e"
    by auto
  from Cons.IH[OF loop this] show ?case .
qed

lemma etd_guard:
  assumes "fst (externalize_to_directory lib html candidates outdir slug chunk_mb w) = Inr result"
  shows "candidates \<noteq> [] \<and> \<not> py_int (chunk_mb * 1024 * 1024) \<le> 0"
proof (rule ccontr)
  assume "\<not> (candidates \<noteq> [] \<and> \<not> py_int (chunk_mb * 1024 * 1024) \<le> 0)"
  then have "\<exists>err. fst (externalize_to_directory lib html candidates outdir slug chunk_mb w) = Inl err"
    by (auto simp: externalize_to_directory_def Let_def)
  with assms show False by simp
qed

lemma etd_unfold:
  assumes "candidates \<noteq> []" and "\<not> py_int (chunk_mb * 1024 * 1024) \<le> 0"
    and "externalize_loop (json_dumps_str lib) (outdir @ [slug] @ [''data''])
           (py_int (chunk_mb * 1024 * 1024)) candidates 0 0 [] []
           (mkdir (outdir @ [slug] @ [''data'']) (mkdir (outdir @ [slug]) w)) = (r, w3)"
  shows "externalize_to_directory lib html candidates outdir slug chunk_mb w =
     (case r of
        Inl err \<Rightarrow> (Inl err, w3)
      | Inr (blobs, repls, cc) \<Rightarrow>
          (Inr \<lparr>viewer_dir = outdir @ [slug], index_path = outdir @ [slug] @ [''index.html''],
                manifest_path = outdir @ [slug] @ [''manifest.json''], chunks_written = cc\<rparr>,
           write_text (outdir @ [slug] @ [''index.html''])
             (ensure_loader_runtime (loader_script lib) (apply_replacements html repls))
             (write_text (outdir @ [slug] @ [''manifest.json''])
                (json_dumps_manifest lib
                   \<lparr>mf_version = 1, mf_generated_at_utc = utc_now_isoformat lib, mf_slug = slug,
                    mf_chunk_target_mb = chunk_mb, mf_blobs = blobs\<rparr>) w3)))"
  using assms
  by (cases r) (auto simp: externalize_to_directory_def Let_def)

text \<open>The two last writes of a run, the manifest and the index, touch no chunk file.\<close>

lemma final_writes_keep_chunks:
  "files (write_text (viewer @ [''index.html'']) index
            (write_text (viewer @ [''manifest.json'']) text w3))
         ((viewer @ [''data'']) @ [name])
     = files w3 ((viewer @ [''data'']) @ [name])"
  by (simp add: write_text_def)

lemma final_writes_manifest:
  "files (write_text (viewer @ [''index.html'']) index
            (write_text (viewer @ [''manifest.json'']) text w3))
         (viewer @ [''manifest.json''])
     = Some text"
  by (simp add: write_text_def)

text \<open>
  C10. For every chunk entry that a call of \<^verbatim>\<open>write_array_chunks\<close> or
  \<^verbatim>\<open>write_text_chunks\<close> returns, and for every chunk entry of the manifest that a
  successful run of \<^verbatim>\<open>externalize_to_directory\<close> writes (the manifest holds the blobs
  that the loop over the candidates has collected): the entry's \<^verbatim>\<open>bytes\<close> is the length
  in bytes of the content of the chunk file at the entry's path, and for an array entry
  \<^verbatim>\<open>items\<close> is the number of elements of the array in that file. This holds in the
  world the call leaves behind: no later chunk, nor the manifest or the index, is
  written over an earlier chunk file.
\<close>

theorem manifest_entries_match_chunk_files:
  "(write_chunks val data_dir chunk_target_bytes chunk_counter w0
        = Inr ((entries, chunk_counter', strategy), w1)
      \<longrightarrow> (\<forall>e \<in> set entries. entry_consistent data_dir w1 e))
   \<and> (fst (externalize_to_directory lib html candidates outdir slug chunk_mb w) = Inr result
      \<longrightarrow> (\<exists>blobs repls cc w3.
             externalize_loop (json_dumps_str lib) (outdir @ [slug] @ [''data''])
                 (py_int (chunk_mb * 1024 * 1024)) candidates 0 0 [] []
                 (mkdir (outdir @ [slug] @ [''data'']) (mkdir (outdir @ [slug]) w))
               = (Inr (blobs, repls, cc), w3)
             \<and> files (snd (externalize_to_directory lib html candidates outdir slug chunk_mb w))
                   (outdir @ [slug] @ [''manifest.json''])
               = Some (json_dumps_manifest lib
                         \<lparr>mf_version = 1, mf_generated_at_utc = utc_now_isoformat lib,
                          mf_slug = slug, mf_chunk_target_mb = chunk_mb, mf_blobs = blobs\<rparr>)
             \<and> (\<forall>blob \<in> set blobs. \<forall>e \<in> set (be_chunks blob).
                   entry_consistent (outdir @ [slug] @ [''data''])
                     (snd (externalize_to_directory lib html candidates outdir slug chunk_mb w))
                     e)))"
proof (intro conjI impI)
  assume "write_chunks val data_dir chunk_target_bytes chunk_counter w0
            = Inr ((entries, chunk_counter', strategy), w1)"
  from write_chunks_entries[OF this]
  have "\<forall>e \<in> set entries. \<exists>k<chunk_counter'. entry_at data_dir w1 k e"
    by (rule conjunct1)
  then show "\<forall>e \<in> set entries. entry_consistent data_dir w1 e"
    by (auto intro: entry_at_consistent)
next
  let ?run = "externalize_to_directory lib html candidates outdir slug chunk_mb w"
  let ?viewer = "outdir @ [slug]"
  let ?data = "outdir @ [slug] @ [''data'']"
  let ?b = "py_int (chunk_mb * 1024 * 1024)"
  let ?w2 = "mkdir ?data (mkdir ?viewer w)"
  let ?loop = "externalize_loop (json_dumps_str lib) ?data ?b candidates 0 0 [] [] ?w2"
  assume ok: "fst ?run = Inr result"
  from etd_guard[OF ok] have ne: "candidates \<noteq> []" and pos: "\<not> ?b \<le> 0"
    by simp_all
  obtain r w3 where loop: "?loop = (r, w3)" by (cases ?loop)
  note unfold = etd_unfold[OF ne pos loop, of html]
  obtain blobs repls cc where r: "r = Inr (blobs, repls, cc)"
  proof (cases r)
    case (Inl err)
    with unfold ok show ?thesis by simp
  next
    case (Inr x)
    with that show ?thesis by (cases x) auto
  qed
  let ?manifest = "\<lparr>mf_version = 1, mf_generated_at_utc = utc_now_isoformat lib, mf_slug = slug,
                    mf_chunk_target_mb = chunk_mb, mf_blobs = blobs\<rparr>"
  let ?text = "json_dumps_manifest lib ?manifest"
  let ?index = "ensure_loader_runtime (loader_script lib) (apply_replacements html repls)"
  let ?w5 = "write_text (?viewer @ [''index.html'']) ?index
               (write_text (?viewer @ [''manifest.json'']) ?text w3)"
  have snd_run: "snd ?run = ?w5"
    using unfold r by simp
  have manifest: "files ?w5 (outdir @ [slug] @ [''manifest.json'']) = Some ?text"
    using final_writes_manifest[of ?viewer ?index ?text w3] by simp
  have kept: "files ?w5 (?data @ [name]) = files w3 (?data @ [name])" for name
    using final_writes_keep_chunks[of ?viewer ?index ?text w3 name] by simp
  have inv: "\<forall>blob \<in> set blobs. \<forall>e \<in> set (be_chunks blob). \<exists>k<cc. entry_at ?data w3 k e"
  proof (rule externalize_loop_entries)
    show "?loop = (Inr (blobs, repls, cc), w3)" using loop r by simp
    show "\<forall>blob \<in> set []. \<forall>e \<in> set (be_chunks blob). \<exists>k<0. entry_at ?data ?w2 k e" by simp
  qed
  have cons: "entry_consistent ?data ?w5 e" if "blob \<in> set blobs" "e \<in> set (be_chunks blob)" for blob e
  proof -
    from inv that obtain k where "entry_at ?data w3 k e" by blast
    then have "entry_at ?data ?w5 k e"
      by (rule entry_at_frame) (rule kept)
    then show ?thesis by (rule entry_at_consistent)
  qed
  have lp: "?loop = (Inr (blobs, repls, cc), w3)" using loop r by simp
  have all: "\<forall>blob \<in> set blobs. \<forall>e \<in> set (be_chunks blob). entry_consistent ?data ?w5 e"
    using cons by blast
  show "\<exists>blobs repls cc w3.
       ?loop = (Inr (blobs, repls, cc), w3)
       \<and> files (snd ?run) (outdir @ [slug] @ [''manifest.json''])
           = Some (json_dumps_manifest lib
                     \<lparr>mf_version = 1, mf_generated_at_utc = utc_now_isoformat lib,
                      mf_slug = slug, mf_chunk_target_mb = chunk_mb, mf_blobs = blobs\<rparr>)
       \<and> (\<forall>blob \<in> set blobs. \<forall>e \<in> set (be_chunks blob).
             entry_consistent (outdir @ [slug] @ [''data'']) (snd ?run) e)"
    unfolding snd_run
    by (rule exI[of _ blobs], rule exI[of _ repls], rule exI[of _ cc], rule exI[of _ w3])
       (rule conjI[OF lp conjI[OF manifest all]])
qed

theorem manifest_entries_match_chunk_files_witness:
  "\<not> isl (write_chunks (JArr [JInt 1, JInt 2, JInt 3]) [''out'', ''v'', ''data''] 5 0
             (world_with [''in.html''] doc_assignment))
   \<and> map ce_bytes (fst (fst (projr
         (write_chunks (JArr [JInt 1, JInt 2, JInt 3]) [''out'', ''v'', ''data''] 5 0
            (world_with [''in.html''] doc_assignment))))) = [5, 3]
   \<and> list_all
        (entry_consistent [''out'', ''v'', ''data'']
           (snd (projr (write_chunks (JArr [JInt 1, JInt 2, JInt 3]) [''out'', ''v'', ''data''] 5 0
                          (world_with [''in.html''] doc_assignment)))))
        (fst (fst (projr
           (write_chunks (JArr [JInt 1, JInt 2, JInt 3]) [''out'', ''v'', ''data''] 5 0
              (world_with [''in.html''] doc_assignment)))))
   \<and> fst (externalize_to_directory example_lib doc_assignment
            (detected example_lib doc_assignment) [''out''] ''v'' 50
            (world_with [''in.html''] doc_assignment))
     = Inr \<lparr>viewer_dir = [''out'', ''v''], index_path = [''out'', ''v'', ''index.html''],
            manifest_path = [''out'', ''v'', ''manifest.json''], chunks_written = 1\<rparr>
   \<and> (\<exists>blobs repls cc w3.
         externalize_loop (json_dumps_str example_lib) [''out'', ''v'', ''data'']
             (py_int (50 * 1024 * 1024)) (detected example_lib doc_assignment) 0 0 [] []
             (mkdir [''out'', ''v'', ''data'']
                (mkdir [''out'', ''v''] (world_with [''in.html''] doc_assignment)))
           = (Inr (blobs, repls, cc), w3)
         \<and> files (snd (externalize_to_directory example_lib doc_assignment
                         (detected example_lib doc_assignment) [''out''] ''v'' 50
                         (world_with [''in.html''] doc_assignment)))
               [''out'', ''v'', ''manifest.json'']
           = Some (json_dumps_manifest example_lib
                     \<lparr>mf_version = 1, mf_generated_at_utc = utc_now_isoformat example_lib,
                      mf_slug = ''v'', mf_chunk_target_mb = 50, mf_blobs = blobs\<rparr>)
         \<and> (\<forall>blob \<in> set blobs. \<forall>e \<in> set (be_chunks blob).
               entry_consistent [''out'', ''v'', ''data'']
                 (snd (externalize_to_directory example_lib doc_assignment
                         (detected example_lib doc_assignment) [''out''] ''v'' 50
                         (world_with [''in.html''] doc_assignment)))
                 e))"
proof -
  let ?w = "world_with [''in.html''] doc_assignment"
  let ?d = "[''out'', ''v'', ''data'']"
  let ?wc = "write_chunks (JArr [JInt 1, JInt 2, JInt 3]) ?d 5 0 ?w"
  let ?run = "externalize_to_directory example_lib doc_assignment
                (detected example_lib doc_assignment) [''out''] ''v'' 50 ?w"
  have isr: "\<not> isl ?wc"
    by code_simp
  have bytes: "map ce_bytes (fst (fst (projr ?wc))) = [5, 3]"
    by code_simp
  from isr obtain entries c' strategy w1 where wc: "?wc = Inr ((entries, c', strategy), w1)"
    by (cases ?wc) auto
  have ex: "fst ?run
      = Inr \<lparr>viewer_dir = [''out'', ''v''], index_path = [''out'', ''v'', ''index.html''],
             manifest_path = [''out'', ''v'', ''manifest.json''], chunks_written = 1\<rparr>"
    by code_simp
  note inst = manifest_entries_match_chunk_files[of "JArr [JInt 1, JInt 2, JInt 3]" ?d 5 0 ?w
      entries c' strategy w1 example_lib doc_assignment
      "detected example_lib doc_assignment" "[''out'']" "''v''" 50 ?w]
  have "\<forall>e \<in> set entries. entry_consistent ?d w1 e"
    by (rule mp[OF conjunct1[OF inst] wc])
  then have c1: "list_all (entry_consistent ?d (snd (projr ?wc))) (fst (fst (projr ?wc)))"
    by (simp add: wc list_all_iff)
  have c2: "\<exists>blobs repls cc w3.
         externalize_loop (json_dumps_str example_lib) ?d
             (py_int (50 * 1024 * 1024)) (detected example_lib doc_assignment) 0 0 [] []
             (mkdir ?d (mkdir [''out'', ''v''] ?w))
           = (Inr (blobs, repls, cc), w3)
         \<and> files (snd ?run) [''out'', ''v'', ''manifest.json'']
           = Some (json_dumps_manifest example_lib
                     \<lparr>mf_version = 1, mf_generated_at_utc = utc_now_isoformat example_lib,
                      mf_slug = ''v'', mf_chunk_target_mb = 50, mf_blobs = blobs\<rparr>)
         \<and> (\<forall>blob \<in> set blobs. \<forall>e \<in> set (be_chunks blob).
               entry_consistent ?d (snd ?run) e)"
    using mp[OF conjunct2[OF inst] ex] by (simp only: append.simps)
  show ?thesis
    by (rule conjI[OF isr conjI[OF bytes conjI[OF c1 conjI[OF ex c2]]]])
qed

end
